theory Spec2Isabelle
  imports Main "HOL-Library.Sublist" "HOL-Library.Char_ord" "HOL-Library.List_Lexorder"
begin

section \<open>JavaScript values\<close>

text \<open>
  A JavaScript number as the dashboard meets it: the result of \<^verbatim>\<open>parseInt\<close> is
  \<^verbatim>\<open>NaN\<close>, an integer, or an infinity. Indices and lengths stay far below \<open>2^53\<close>, so
  a finite integer is kept exactly; a longer digit string is rounded by the engine, which
  changes no comparison against a length.
\<close>

datatype number = NaN | Fin int | PosInf | NegInf

text \<open>The outcome of a call inside \<^verbatim>\<open>try { ... } catch { ... }\<close>.\<close>

datatype 'a attempt = Threw | Returned 'a

text \<open>
  Strings are lists of code units below 256. White space is what \<^verbatim>\<open>String.prototype.trim\<close>
  and \<^verbatim>\<open>parseInt\<close> strip: tab, line feed, vertical tab, form feed, carriage return,
  space and no-break space.
\<close>

definition isWhiteSpace :: "char \<Rightarrow> bool" where
  "isWhiteSpace c = ((of_char c :: nat) \<in> set [9, 10, 11, 12, 13, 32, 160])"

definition trim :: "string \<Rightarrow> string" where
  "trim s = rev (dropWhile isWhiteSpace (rev (dropWhile isWhiteSpace s)))"

text \<open>The regular expression class \<^verbatim>\<open>\d\<close>: the ten ASCII digits.\<close>

definition isDigit :: "char \<Rightarrow> bool" where
  "isDigit c = (48 \<le> (of_char c :: nat) \<and> (of_char c :: nat) \<le> 57)"

definition digitValue :: "char \<Rightarrow> int" where
  "digitValue c = int (of_char c) - 48"

definition mathInt :: "string \<Rightarrow> int" where
  "mathInt z = foldl (\<lambda>acc c. 10 * acc + digitValue c) 0 z"

text \<open>Integers at or beyond this magnitude round to an infinity as a double.\<close>

definition overflowBound :: int where
  "overflowBound = 2 ^ 1024 - 2 ^ 970"

definition toNumber :: "int \<Rightarrow> number" where
  "toNumber v =
     (if overflowBound \<le> v then PosInf
      else if v \<le> - overflowBound then NegInf
      else Fin v)"

text \<open>
  \<^verbatim>\<open>parseInt(s, 10)\<close>: skip leading white space, read an optional sign, then the longest
  run of decimal digits; no digit gives \<^verbatim>\<open>NaN\<close>, and whatever follows the digits is
  ignored.
\<close>

definition parseInt :: "string \<Rightarrow> number" where
  "parseInt s =
     (let t = dropWhile isWhiteSpace s;
          negative = (t \<noteq> [] \<and> hd t = CHR ''-'');
          u = (if t \<noteq> [] \<and> (hd t = CHR ''-'' \<or> hd t = CHR ''+'') then tl t else t);
          z = takeWhile isDigit u
      in if z = [] then NaN
         else toNumber (if negative then - mathInt z else mathInt z))"

text \<open>\<^verbatim>\<open>String(n)\<close> for an integer \<open>n\<close> (below \<open>10^21\<close> in magnitude): its decimal digits.\<close>

fun digitsOf :: "nat \<Rightarrow> string" where
  "digitsOf n =
     (if n < 10 then [char_of (48 + n)]
      else digitsOf (n div 10) @ [char_of (48 + n mod 10)])"

declare digitsOf.simps [simp del]

definition numberToString :: "int \<Rightarrow> string" where
  "numberToString n = (if n < 0 then CHR ''-'' # digitsOf (nat (- n)) else digitsOf (nat n))"

text \<open>\<^verbatim>\<open>xs.slice(b, e)\<close> for \<open>0 \<le> b \<le> e\<close>.\<close>

definition slice :: "nat \<Rightarrow> nat \<Rightarrow> 'a list \<Rightarrow> 'a list" where
  "slice b e xs = take (e - b) (drop b xs)"


section \<open>Pure helpers of the dashboard\<close>

text \<open>
  The repository holds two versions of the component \<^verbatim>\<open>App\<close>: \<^verbatim>\<open>src/App.tsx\<close>, without
  a filter, and a later one with the industry filter. The helpers of this section are the
  same text in both.
  \<^verbatim>\<open>
  const clamp = (value: number, min: number, max: number) =>
    Math.min(Math.max(value, min), max);

  const formatPhoneNumber = (phone: string) => {
    const digits = phone.replace(/\D/g, '');
    if (digits.length === 10) {
      return `(${digits.slice(0, 3)}) ${digits.slice(3, 6)}-${digits.slice(6)}`;
    }
    return phone;
  };
  \<close>
\<close>

definition clamp :: "int \<Rightarrow> int \<Rightarrow> int \<Rightarrow> int" where
  "clamp v lo hi = min (max v lo) hi"

definition formatPhoneNumber :: "string \<Rightarrow> string" where
  "formatPhoneNumber phone =
     (let digits = filter isDigit phone
      in if length digits = 10
         then ''('' @ slice 0 3 digits @ '') '' @ slice 3 6 digits @ ''-'' @ drop 6 digits
         else phone)"

record business =
  site_url :: string
  business_name :: string
  industry :: string
  company_name :: string
  city :: string
  phone_number :: string

text \<open>
  A row as the CSV library hands it over: a column missing from the header leaves the
  field undefined.
\<close>

record parsed_row =
  row_site_url :: "string option"
  row_business_name :: "string option"
  row_industry :: "string option"
  row_company_name :: "string option"
  row_city :: "string option"
  row_phone_number :: "string option"

record 'e parse_result =
  data :: "parsed_row list option"
  errors :: "'e list option"

text \<open>The CSV library (\<^verbatim>\<open>Papa.parse\<close> with a header row) is a parameter of the model.\<close>

type_synonym 'e parser = "string \<Rightarrow> 'e parse_result"

text \<open>
  \<^verbatim>\<open>parseBusinesses\<close> maps every row to its trimmed fields
  (\<^verbatim>\<open>business.site_url?.trim() ?? ''\<close> and so on) and keeps the rows where
  \<^verbatim>\<open>business_name || company_name || site_url || phone_number\<close> is truthy.
\<close>

definition trimmedOrEmpty :: "string option \<Rightarrow> string" where
  "trimmedOrEmpty field = (case field of None \<Rightarrow> [] | Some s \<Rightarrow> trim s)"

definition trimFields :: "parsed_row \<Rightarrow> business" where
  "trimFields r =
     \<lparr> site_url = trimmedOrEmpty (row_site_url r),
       business_name = trimmedOrEmpty (row_business_name r),
       industry = trimmedOrEmpty (row_industry r),
       company_name = trimmedOrEmpty (row_company_name r),
       city = trimmedOrEmpty (row_city r),
       phone_number = trimmedOrEmpty (row_phone_number r) \<rparr>"

definition hasContact :: "business \<Rightarrow> bool" where
  "hasContact b =
     (business_name b \<noteq> [] \<or> company_name b \<noteq> [] \<or> site_url b \<noteq> [] \<or> phone_number b \<noteq> [])"

definition parseBusinesses :: "'e parser \<Rightarrow> string \<Rightarrow> business list \<times> 'e list" where
  "parseBusinesses papa csvText =
     (let parsed = papa (trim csvText)
      in ((case data parsed of None \<Rightarrow> [] | Some rows \<Rightarrow> filter hasContact (map trimFields rows)),
          (case errors parsed of None \<Rightarrow> [] | Some es \<Rightarrow> es)))"

text \<open>
  \<^verbatim>\<open>
  const getStoredIndex = (total: number) => {
    if (!total) return 0;
    try {
      const stored = window.localStorage.getItem(STORAGE_KEY);
      const parsed = stored ? parseInt(stored, 10) : 0;
      return Number.isFinite(parsed) ? clamp(parsed, 0, total - 1) : 0;
    } catch {
      return 0;
    }
  };
  \<close>
  The model takes what \<^verbatim>\<open>localStorage.getItem\<close> did: it threw, or it returned
  \<^verbatim>\<open>null\<close> or a string.
\<close>

definition getStoredIndex :: "int \<Rightarrow> string option attempt \<Rightarrow> int" where
  "getStoredIndex total' item =
     (if total' = 0 then 0
      else case item of
             Threw \<Rightarrow> 0
           | Returned stored \<Rightarrow>
               (let parsed = (case stored of
                                None \<Rightarrow> Fin 0
                              | Some s \<Rightarrow> if s = [] then Fin 0 else parseInt s)
                in case parsed of Fin p \<Rightarrow> clamp p 0 (total' - 1) | _ \<Rightarrow> 0))"

definition filteredBusinesses :: "business list \<Rightarrow> string \<Rightarrow> business list" where
  "filteredBusinesses businesses selectedIndustry =
     (if selectedIndustry = [] then businesses
      else filter (\<lambda>b. industry b = selectedIndustry) businesses)"

definition industries :: "business list \<Rightarrow> string list" where
  "industries businesses =
     sort (remdups (filter (\<lambda>s. s \<noteq> [] \<and> trim s \<noteq> []) (map industry businesses)))"

section \<open>The browser: key-value storage and the URL\<close>

text \<open>
  The two items of \<^verbatim>\<open>localStorage\<close> and the query parameter \<^verbatim>\<open>industry\<close>. With
  \<open>storageThrows\<close> every access to the storage raises (storage disabled).
\<close>

record browser =
  storageThrows :: bool
  storedIndex :: "string option"
  storedIndustry :: "string option"
  urlIndustry :: "string option"

definition getItem :: "browser \<Rightarrow> (browser \<Rightarrow> string option) \<Rightarrow> string option attempt" where
  "getItem w key = (if storageThrows w then Threw else Returned (key w))"

text \<open>What the dashboard does to the outside, in order.\<close>

datatype action =
    Hydrate
  | ResetIndex
  | SetItemIndex string
  | SetItemIndustry string
  | ReplaceUrl "string option"

definition isWrite :: "action \<Rightarrow> bool" where
  "isWrite x = (case x of Hydrate \<Rightarrow> False | ResetIndex \<Rightarrow> False | _ \<Rightarrow> True)"


section \<open>The dashboard with the industry filter\<close>

text \<open>
  A React component is modelled by its state cells and refs, the browser it acts on, and
  the dependency values its effects saw at the last commit. An event changes state cells;
  then the component renders and commits until nothing changes: in a commit the effects
  whose dependencies differ from the last commit run in the order they are written, an
  effect reads the state of its render and the current refs, sets refs at once and queues
  state updates, and the queued updates are applied after the last effect.

  The state cells and the two refs of \<^verbatim>\<open>App\<close>; \<open>fetchPending\<close> says that the request for
  \<^verbatim>\<open>/data.csv\<close>, made once by the first effect, has not resolved yet.
\<close>

record app =
  csvText :: string
  fetchPending :: bool
  selectedIndustry :: string
  currentIndex :: int
  jumpInput :: string
  showJumpInput :: bool
  initializedRef :: bool
  hasInitializedRef :: bool

text \<open>The dependency values of the effects at the last commit.\<close>

record deps =
  depIndex :: int
  depIndustry :: string
  depTotal :: int

record system =
  ui :: app
  lastDeps :: "deps option"
  env :: browser
  log :: "action list"

definition businessesOf :: "'e parser \<Rightarrow> app \<Rightarrow> business list" where
  "businessesOf papa a = fst (parseBusinesses papa (csvText a))"

definition activeRows :: "'e parser \<Rightarrow> app \<Rightarrow> business list" where
  "activeRows papa a = filteredBusinesses (businessesOf papa a) (selectedIndustry a)"

definition totalOf :: "'e parser \<Rightarrow> app \<Rightarrow> int" where
  "totalOf papa a = int (length (activeRows papa a))"

text \<open>\<^verbatim>\<open>filteredBusinesses[currentIndex]\<close>: undefined out of range.\<close>

definition currentBusiness :: "'e parser \<Rightarrow> app \<Rightarrow> business option" where
  "currentBusiness papa a =
     (if 0 \<le> currentIndex a \<and> currentIndex a < totalOf papa a
      then Some (activeRows papa a ! nat (currentIndex a)) else None)"

definition canGoBack :: "app \<Rightarrow> bool" where
  "canGoBack a = (currentIndex a > 0)"

definition canGoNext :: "'e parser \<Rightarrow> app \<Rightarrow> bool" where
  "canGoNext papa a = (currentIndex a < totalOf papa a - 1)"

text \<open>The card, with the filter selector and the jump input, is rendered only then.\<close>

definition cardVisible :: "'e parser \<Rightarrow> app \<Rightarrow> bool" where
  "cardVisible papa a = (totalOf papa a > 0 \<and> currentBusiness papa a \<noteq> None)"

definition initialIndustry :: "browser \<Rightarrow> string" where
  "initialIndustry w =
     (let fromStorage = (case getItem w storedIndustry of
                           Threw \<Rightarrow> []
                         | Returned None \<Rightarrow> []
                         | Returned (Some v) \<Rightarrow> v)
      in case urlIndustry w of
           None \<Rightarrow> fromStorage
         | Some u \<Rightarrow> if u \<noteq> [] then u else fromStorage)"

subsection \<open>Effects\<close>

text \<open>
  The three effects after the one that fetches, in the order of the source:
  \<^verbatim>\<open>
  useEffect(() => {
    // Persist only after we've rehydrated from storage to avoid clobbering
    if (!hasInitializedRef.current) return;
    try {
      window.localStorage.setItem(STORAGE_KEY, String(currentIndex));
      window.localStorage.setItem(INDUSTRY_STORAGE_KEY, selectedIndustry);
      const params = new URLSearchParams(window.location.search);
      if (selectedIndustry) { params.set('industry', selectedIndustry); }
      else { params.delete('industry'); }
      ...
      window.history.replaceState({}, '', newUrl);
    } catch { }
  }, [currentIndex, selectedIndustry]);

  useEffect(() => {
    if (!initializedRef.current && total > 0) {
      initializedRef.current = true;
      hasInitializedRef.current = true;
      setCurrentIndex(getStoredIndex(total));
    }
  }, [total]);

  useEffect(() => {
    if (hasInitializedRef.current) { setCurrentIndex(0); }
  }, [selectedIndustry]);
  \<close>
  A call of \<^verbatim>\<open>setCurrentIndex\<close> is returned beside the system and applied after the pass.
  With a storage that throws, the first \<^verbatim>\<open>setItem\<close> ends the persist effect.
\<close>

definition persistEffect :: "system \<Rightarrow> system" where
  "persistEffect s =
     (let a = ui s; w = env s; i = numberToString (currentIndex a); f = selectedIndustry a;
          u = (if f \<noteq> [] then Some f else None)
      in if \<not> hasInitializedRef a then s
         else if storageThrows w then s\<lparr>log := log s @ [SetItemIndex i]\<rparr>
         else s\<lparr>env := w\<lparr>storedIndex := Some i, storedIndustry := Some f, urlIndustry := u\<rparr>,
                log := log s @ [SetItemIndex i, SetItemIndustry f, ReplaceUrl u]\<rparr>)"

definition restoreEffect :: "'e parser \<Rightarrow> system \<Rightarrow> system \<times> int option" where
  "restoreEffect papa s =
     (let a = ui s; t = totalOf papa a
      in if \<not> initializedRef a \<and> t > 0
         then (s\<lparr>ui := a\<lparr>initializedRef := True, hasInitializedRef := True\<rparr>,
                 log := log s @ [Hydrate]\<rparr>,
               Some (getStoredIndex t (getItem (env s) storedIndex)))
         else (s, None))"

definition resetEffect :: "system \<Rightarrow> system \<times> int option" where
  "resetEffect s =
     (if hasInitializedRef (ui s) then (s\<lparr>log := log s @ [ResetIndex]\<rparr>, Some 0)
      else (s, None))"

definition depsOf :: "'e parser \<Rightarrow> app \<Rightarrow> deps" where
  "depsOf papa a =
     \<lparr> depIndex = currentIndex a, depIndustry = selectedIndustry a, depTotal = totalOf papa a \<rparr>"

text \<open>
  One commit: the effects whose dependencies changed since the last commit run in the
  order of the source, then the last queued \<^verbatim>\<open>setCurrentIndex\<close> is applied.
\<close>

definition persistDue :: "deps option \<Rightarrow> deps \<Rightarrow> bool" where
  "persistDue prev d =
     (case prev of None \<Rightarrow> True
      | Some p \<Rightarrow> depIndex p \<noteq> depIndex d \<or> depIndustry p \<noteq> depIndustry d)"

definition restoreDue :: "deps option \<Rightarrow> deps \<Rightarrow> bool" where
  "restoreDue prev d = (case prev of None \<Rightarrow> True | Some p \<Rightarrow> depTotal p \<noteq> depTotal d)"

definition resetDue :: "deps option \<Rightarrow> deps \<Rightarrow> bool" where
  "resetDue prev d = (case prev of None \<Rightarrow> True | Some p \<Rightarrow> depIndustry p \<noteq> depIndustry d)"

definition commit :: "'e parser \<Rightarrow> system \<Rightarrow> system" where
  "commit papa s =
     (let d = depsOf papa (ui s);
          r1 = (if persistDue (lastDeps s) d then persistEffect s else s);
          r2 = (if restoreDue (lastDeps s) d then restoreEffect papa r1 else (r1, None));
          r3 = (if resetDue (lastDeps s) d then resetEffect (fst r2) else (fst r2, None));
          i = (case snd r3 of Some j \<Rightarrow> j
               | None \<Rightarrow> (case snd r2 of Some j \<Rightarrow> j | None \<Rightarrow> currentIndex (ui s)))
      in (fst r3)\<lparr>ui := (ui (fst r3))\<lparr>currentIndex := i\<rparr>, lastDeps := Some d\<rparr>)"

definition dirty :: "'e parser \<Rightarrow> system \<Rightarrow> bool" where
  "dirty papa s = (lastDeps s \<noteq> Some (depsOf papa (ui s)))"

text \<open>Render and commit until no effect is due.\<close>

function settle :: "'e parser \<Rightarrow> system \<Rightarrow> system" where
  "settle papa s = (if dirty papa s then settle papa (commit papa s) else s)"
  by pat_completeness auto

text \<open>The measure by which \<open>settle\<close> ends: three commits at most.\<close>

definition settleMeasure :: "'e parser \<Rightarrow> system \<Rightarrow> nat" where
  "settleMeasure papa s =
     (case lastDeps s of
        None \<Rightarrow> 3
      | Some p \<Rightarrow>
          if depTotal p \<noteq> totalOf papa (ui s) \<or> depIndustry p \<noteq> selectedIndustry (ui s) then 2
          else if depIndex p \<noteq> currentIndex (ui s) then 1 else 0)"

subsection \<open>Event handlers\<close>

text \<open>
  The arrows call \<^verbatim>\<open>setCurrentIndex(Math.max(0, currentIndex - 1))\<close> and
  \<^verbatim>\<open>setCurrentIndex(Math.min(total - 1, currentIndex + 1))\<close> and are disabled without
  \<^verbatim>\<open>canGoBack\<close> and \<^verbatim>\<open>canGoNext\<close>.
  \<^verbatim>\<open>
  const handleJump = () => {
    const num = parseInt(jumpInput, 10);
    if (num >= 1 && num <= total) {
      setCurrentIndex(num - 1);
      setShowJumpInput(false);
      setJumpInput('');
    }
  };
  \<close>
\<close>

definition handlePrevious :: "app \<Rightarrow> app" where
  "handlePrevious a =
     (if canGoBack a then a\<lparr>currentIndex := max 0 (currentIndex a - 1)\<rparr> else a)"

definition handleNext :: "'e parser \<Rightarrow> app \<Rightarrow> app" where
  "handleNext papa a =
     (if canGoNext papa a
      then a\<lparr>currentIndex := min (totalOf papa a - 1) (currentIndex a + 1)\<rparr> else a)"

definition handleJump :: "'e parser \<Rightarrow> app \<Rightarrow> app" where
  "handleJump papa a =
     (case parseInt (jumpInput a) of
        Fin num \<Rightarrow>
          if num \<ge> 1 \<and> num \<le> totalOf papa a
          then a\<lparr>currentIndex := num - 1, showJumpInput := False, jumpInput := []\<rparr>
          else a
      | _ \<Rightarrow> a)"

datatype event =
    FetchResolved string
  | ClickPrevious
  | ClickNext
  | ClickEntry
  | ChangeJumpInput string
  | SubmitJump
  | CancelJump
  | SelectIndustry string

text \<open>
  What an event does to the state cells. A disabled button and an element that is not
  rendered receive no event; the request for the CSV file resolves at most once, and its
  text is taken only when it is not blank.
\<close>

fun react :: "'e parser \<Rightarrow> event \<Rightarrow> app \<Rightarrow> app" where
  "react papa (FetchResolved text) a =
     (if fetchPending a
      then (if trim text \<noteq> [] then a\<lparr>csvText := text, fetchPending := False\<rparr>
            else a\<lparr>fetchPending := False\<rparr>)
      else a)"
| "react papa ClickPrevious a = handlePrevious a"
| "react papa ClickNext a = handleNext papa a"
| "react papa ClickEntry a =
     (if cardVisible papa a \<and> \<not> showJumpInput a then a\<lparr>showJumpInput := True\<rparr> else a)"
| "react papa (ChangeJumpInput v) a =
     (if cardVisible papa a \<and> showJumpInput a then a\<lparr>jumpInput := v\<rparr> else a)"
| "react papa SubmitJump a =
     (if cardVisible papa a \<and> showJumpInput a then handleJump papa a else a)"
| "react papa CancelJump a =
     (if cardVisible papa a \<and> showJumpInput a
      then a\<lparr>showJumpInput := False, jumpInput := []\<rparr> else a)"
| "react papa (SelectIndustry v) a =
     (if cardVisible papa a \<and> (v = [] \<or> v \<in> set (industries (businessesOf papa a)))
      then a\<lparr>selectedIndustry := v\<rparr> else a)"

definition step :: "'e parser \<Rightarrow> system \<Rightarrow> event \<Rightarrow> system" where
  "step papa s e = settle papa (s\<lparr>ui := react papa e (ui s)\<rparr>)"

definition run :: "'e parser \<Rightarrow> system \<Rightarrow> event list \<Rightarrow> system" where
  "run papa s es = foldl (step papa) s es"

text \<open>The first render and its commit, before the CSV text has arrived.\<close>

definition initialApp :: "'e parser \<Rightarrow> browser \<Rightarrow> app" where
  "initialApp papa w =
     (let a0 = \<lparr> csvText = [], fetchPending = True, selectedIndustry = initialIndustry w,
                 currentIndex = 0, jumpInput = [], showJumpInput = False,
                 initializedRef = False, hasInitializedRef = False \<rparr>
      in a0\<lparr>currentIndex := getStoredIndex (totalOf papa a0) (getItem w storedIndex)\<rparr>)"

definition mount :: "'e parser \<Rightarrow> browser \<Rightarrow> system" where
  "mount papa w = settle papa \<lparr> ui = initialApp papa w, lastDeps = None, env = w, log = [] \<rparr>"

section \<open>The dashboard without the filter (\<^verbatim>\<open>src/App.tsx\<close>)\<close>

text \<open>
  The same helpers and refs, with no industry filter; the position is edited in place and
  committed by \<^verbatim>\<open>commitIndex\<close>, which clamps. Names that the two versions share carry
  the suffix \<open>P\<close> here.
  \<^verbatim>\<open>
  const commitIndex = () => {
    const parsed = parseInt(inputIndex, 10);
    if (Number.isFinite(parsed)) {
      setCurrentIndex(clamp(parsed - 1, 0, total - 1));
    }
    setIsEditingIndex(false);
  };
  \<close>
  Previous is disabled with \<^verbatim>\<open>!showNavigation || currentIndex === 0\<close> and sets
  \<^verbatim>\<open>clamp(index - 1, 0, total - 1)\<close>; Next is disabled with
  \<^verbatim>\<open>!showNavigation || currentIndex >= total - 1\<close> and sets
  \<^verbatim>\<open>clamp(index + 1, 0, total - 1)\<close>.
\<close>

record plain =
  csvTextP :: string
  fetchPendingP :: bool
  currentIndexP :: int
  isEditingIndex :: bool
  inputIndex :: string
  initializedRefP :: bool
  hasInitializedRefP :: bool

definition totalP :: "'e parser \<Rightarrow> plain \<Rightarrow> int" where
  "totalP papa b = int (length (fst (parseBusinesses papa (csvTextP b))))"

definition showNavigation :: "'e parser \<Rightarrow> plain \<Rightarrow> bool" where
  "showNavigation papa b = (totalP papa b > 0)"

definition commitIndex :: "'e parser \<Rightarrow> plain \<Rightarrow> plain" where
  "commitIndex papa b =
     (let b1 = (case parseInt (inputIndex b) of
                  Fin parsed \<Rightarrow> b\<lparr>currentIndexP := clamp (parsed - 1) 0 (totalP papa b - 1)\<rparr>
                | _ \<Rightarrow> b)
      in b1\<lparr>isEditingIndex := False\<rparr>)"

definition previousP :: "'e parser \<Rightarrow> plain \<Rightarrow> plain" where
  "previousP papa b =
     (if \<not> showNavigation papa b \<or> currentIndexP b = 0 then b
      else b\<lparr>currentIndexP := clamp (currentIndexP b - 1) 0 (totalP papa b - 1)\<rparr>)"

definition nextP :: "'e parser \<Rightarrow> plain \<Rightarrow> plain" where
  "nextP papa b =
     (if \<not> showNavigation papa b \<or> currentIndexP b \<ge> totalP papa b - 1 then b
      else b\<lparr>currentIndexP := clamp (currentIndexP b + 1) 0 (totalP papa b - 1)\<rparr>)"


subsection \<open>Effects and events\<close>

text \<open>
  The persist effect depends on the index alone and writes the index alone
  (\<^verbatim>\<open>if (!hasInitializedRef.current) return;\<close> then
  \<^verbatim>\<open>localStorage.setItem(STORAGE_KEY, String(currentIndex))\<close>); the restore effect is the
  one of the dashboard with the filter. The position editor opens with
  \<^verbatim>\<open>String(currentIndex + 1)\<close> in its input; Enter, Go and a blur commit, Escape closes.
\<close>

record depsP =
  depIndexP :: int
  depTotalP :: int

record systemP =
  uiP :: plain
  lastDepsP :: "depsP option"
  envP :: browser
  logP :: "action list"

text \<open>\<^verbatim>\<open>businesses[currentIndex]\<close>: undefined out of range.\<close>

definition currentBusinessP :: "'e parser \<Rightarrow> plain \<Rightarrow> business option" where
  "currentBusinessP papa b =
     (if 0 \<le> currentIndexP b \<and> currentIndexP b < totalP papa b
      then Some (fst (parseBusinesses papa (csvTextP b)) ! nat (currentIndexP b)) else None)"

definition persistEffectP :: "systemP \<Rightarrow> systemP" where
  "persistEffectP s =
     (let b = uiP s; w = envP s; i = numberToString (currentIndexP b)
      in if \<not> hasInitializedRefP b then s
         else if storageThrows w then s\<lparr>logP := logP s @ [SetItemIndex i]\<rparr>
         else s\<lparr>envP := w\<lparr>storedIndex := Some i\<rparr>, logP := logP s @ [SetItemIndex i]\<rparr>)"

definition restoreEffectP :: "'e parser \<Rightarrow> systemP \<Rightarrow> systemP \<times> int option" where
  "restoreEffectP papa s =
     (let b = uiP s; t = totalP papa b
      in if \<not> initializedRefP b \<and> t > 0
         then (s\<lparr>uiP := b\<lparr>initializedRefP := True, hasInitializedRefP := True\<rparr>,
                 logP := logP s @ [Hydrate]\<rparr>,
               Some (getStoredIndex t (getItem (envP s) storedIndex)))
         else (s, None))"

definition depsOfP :: "'e parser \<Rightarrow> plain \<Rightarrow> depsP" where
  "depsOfP papa b = \<lparr> depIndexP = currentIndexP b, depTotalP = totalP papa b \<rparr>"

definition commitP :: "'e parser \<Rightarrow> systemP \<Rightarrow> systemP" where
  "commitP papa s =
     (let d = depsOfP papa (uiP s);
          persistDueP = (case lastDepsP s of None \<Rightarrow> True | Some p \<Rightarrow> depIndexP p \<noteq> depIndexP d);
          restoreDueP = (case lastDepsP s of None \<Rightarrow> True | Some p \<Rightarrow> depTotalP p \<noteq> depTotalP d);
          r1 = (if persistDueP then persistEffectP s else s);
          r2 = (if restoreDueP then restoreEffectP papa r1 else (r1, None));
          i = (case snd r2 of Some j \<Rightarrow> j | None \<Rightarrow> currentIndexP (uiP s))
      in (fst r2)\<lparr>uiP := (uiP (fst r2))\<lparr>currentIndexP := i\<rparr>, lastDepsP := Some d\<rparr>)"

definition dirtyP :: "'e parser \<Rightarrow> systemP \<Rightarrow> bool" where
  "dirtyP papa s = (lastDepsP s \<noteq> Some (depsOfP papa (uiP s)))"

function settleP :: "'e parser \<Rightarrow> systemP \<Rightarrow> systemP" where
  "settleP papa s = (if dirtyP papa s then settleP papa (commitP papa s) else s)"
  by pat_completeness auto

definition settleMeasureP :: "'e parser \<Rightarrow> systemP \<Rightarrow> nat" where
  "settleMeasureP papa s =
     (case lastDepsP s of
        None \<Rightarrow> 3
      | Some p \<Rightarrow>
          if depTotalP p \<noteq> totalP papa (uiP s) then 2
          else if depIndexP p \<noteq> currentIndexP (uiP s) then 1 else 0)"

datatype eventP =
    FetchResolvedP string
  | ClickPreviousP
  | ClickNextP
  | ClickPosition
  | ChangePosition string
  | CommitPosition
  | EscapePosition

fun reactP :: "'e parser \<Rightarrow> eventP \<Rightarrow> plain \<Rightarrow> plain" where
  "reactP papa (FetchResolvedP body) b =
     (if fetchPendingP b
      then (if trim body \<noteq> [] then b\<lparr>csvTextP := body, fetchPendingP := False\<rparr>
            else b\<lparr>fetchPendingP := False\<rparr>)
      else b)"
| "reactP papa ClickPreviousP b = previousP papa b"
| "reactP papa ClickNextP b = nextP papa b"
| "reactP papa ClickPosition b =
     (if showNavigation papa b \<and> \<not> isEditingIndex b
      then b\<lparr>isEditingIndex := True, inputIndex := numberToString (currentIndexP b + 1)\<rparr>
      else b)"
| "reactP papa (ChangePosition v) b =
     (if showNavigation papa b \<and> isEditingIndex b then b\<lparr>inputIndex := v\<rparr> else b)"
| "reactP papa CommitPosition b =
     (if showNavigation papa b \<and> isEditingIndex b then commitIndex papa b else b)"
| "reactP papa EscapePosition b =
     (if showNavigation papa b \<and> isEditingIndex b then b\<lparr>isEditingIndex := False\<rparr> else b)"

definition stepP :: "'e parser \<Rightarrow> systemP \<Rightarrow> eventP \<Rightarrow> systemP" where
  "stepP papa s e = settleP papa (s\<lparr>uiP := reactP papa e (uiP s)\<rparr>)"

definition runP :: "'e parser \<Rightarrow> systemP \<Rightarrow> eventP list \<Rightarrow> systemP" where
  "runP papa s es = foldl (stepP papa) s es"

definition initialPlain :: "'e parser \<Rightarrow> browser \<Rightarrow> plain" where
  "initialPlain papa w =
     (let b0 = \<lparr> csvTextP = [], fetchPendingP = True, currentIndexP = 0, isEditingIndex = False,
                 inputIndex = [], initializedRefP = False, hasInitializedRefP = False \<rparr>
      in b0\<lparr>currentIndexP := getStoredIndex (totalP papa b0) (getItem w storedIndex)\<rparr>)"

definition mountP :: "'e parser \<Rightarrow> browser \<Rightarrow> systemP" where
  "mountP papa w = settleP papa \<lparr> uiP = initialPlain papa w, lastDepsP = None, envP = w, logP = [] \<rparr>"


section \<open>Notions of the specification\<close>

text \<open>A string with no white space at either end.\<close>

definition trimmed :: "string \<Rightarrow> bool" where
  "trimmed s = (s = [] \<or> (\<not> isWhiteSpace (hd s) \<and> \<not> isWhiteSpace (last s)))"

definition nonBlank :: "string option \<Rightarrow> bool" where
  "nonBlank field = (case field of None \<Rightarrow> False | Some s \<Rightarrow> trim s \<noteq> [])"

text \<open>A row with at least one of the four tracked fields non-empty after trimming.\<close>

definition tracked :: "parsed_row \<Rightarrow> bool" where
  "tracked r =
     (nonBlank (row_business_name r) \<or> nonBlank (row_company_name r) \<or>
      nonBlank (row_site_url r) \<or> nonBlank (row_phone_number r))"

definition allTrimmed :: "business \<Rightarrow> bool" where
  "allTrimmed b =
     (trimmed (site_url b) \<and> trimmed (business_name b) \<and> trimmed (industry b) \<and>
      trimmed (company_name b) \<and> trimmed (city b) \<and> trimmed (phone_number b))"

text \<open>Typing the number \<open>n\<close> into the jump input and pressing Go.\<close>

definition jumpTo :: "'e parser \<Rightarrow> int \<Rightarrow> app \<Rightarrow> app" where
  "jumpTo papa n a = handleJump papa (a\<lparr>jumpInput := numberToString n\<rparr>)"

definition jumpToP :: "'e parser \<Rightarrow> int \<Rightarrow> plain \<Rightarrow> plain" where
  "jumpToP papa n b = commitIndex papa (b\<lparr>inputIndex := numberToString n\<rparr>)"

text \<open>Opening the jump input, typing the number \<open>n\<close> and pressing Go.\<close>

definition jumpEvents :: "int \<Rightarrow> event list" where
  "jumpEvents n = [ClickEntry, ChangeJumpInput (numberToString n), SubmitJump]"

definition jumpEventsP :: "int \<Rightarrow> eventP list" where
  "jumpEventsP n = [ClickPosition, ChangePosition (numberToString n), CommitPosition]"

text \<open>The events of navigation: everything but the arrival of the CSV text and the filter.\<close>

definition isNavigation :: "event \<Rightarrow> bool" where
  "isNavigation e = (case e of FetchResolved _ \<Rightarrow> False | SelectIndustry _ \<Rightarrow> False | _ \<Rightarrow> True)"

definition isNavigationP :: "eventP \<Rightarrow> bool" where
  "isNavigationP e = (case e of FetchResolvedP _ \<Rightarrow> False | _ \<Rightarrow> True)"

text \<open>No write to the storage or the URL comes before the hydration in a trace.\<close>

definition writesFollowHydration :: "action list \<Rightarrow> bool" where
  "writesFollowHydration tr =
     list_all (\<lambda>x. \<not> isWrite x) (takeWhile (\<lambda>x. x \<noteq> Hydrate) tr)"


section \<open>Invariants of the commit loop\<close>

text \<open>
  The guard of the persist effect, as an invariant of a system started on the browser
  \<open>w0\<close>: the two refs agree, they are set exactly when the trace holds its one hydration,
  and before that nothing was written and the browser is as it was.
\<close>

definition guarded :: "browser \<Rightarrow> system \<Rightarrow> bool" where
  "guarded w0 s =
     (initializedRef (ui s) = hasInitializedRef (ui s)
      \<and> (hasInitializedRef (ui s) \<longleftrightarrow> Hydrate \<in> set (log s))
      \<and> writesFollowHydration (log s)
      \<and> count_list (log s) Hydrate \<le> 1
      \<and> (\<not> hasInitializedRef (ui s) \<longrightarrow> env s = w0))"

definition guardedP :: "browser \<Rightarrow> systemP \<Rightarrow> bool" where
  "guardedP w0 s =
     (initializedRefP (uiP s) = hasInitializedRefP (uiP s)
      \<and> (hasInitializedRefP (uiP s) \<longleftrightarrow> Hydrate \<in> set (logP s))
      \<and> writesFollowHydration (logP s)
      \<and> count_list (logP s) Hydrate \<le> 1
      \<and> (\<not> hasInitializedRefP (uiP s) \<longrightarrow> envP s = w0))"

text \<open>
  What a settled system started on the browser \<open>w0\<close> keeps true, as long as the storage
  works: once hydrated, the index is in range and the browser holds what restores the
  filter and the index; before, nothing has moved.
\<close>

definition consistent :: "'e parser \<Rightarrow> browser \<Rightarrow> system \<Rightarrow> bool" where
  "consistent papa w0 s =
     (let a = ui s; t = totalOf papa a
      in \<not> dirty papa s \<and> \<not> storageThrows (env s)
         \<and> initializedRef a = hasInitializedRef a
         \<and> (csvText a = [] \<or> trim (csvText a) \<noteq> [])
         \<and> (fetchPending a \<longrightarrow> csvText a = [])
         \<and> (if hasInitializedRef a
             then 0 \<le> currentIndex a \<and> currentIndex a < t
                  \<and> initialIndustry (env s) = selectedIndustry a
                  \<and> (t < overflowBound \<longrightarrow>
                        getStoredIndex t (getItem (env s) storedIndex) = currentIndex a)
             else currentIndex a = 0 \<and> t = 0 \<and> env s = w0
                  \<and> selectedIndustry a = initialIndustry w0))"

definition consistentP :: "'e parser \<Rightarrow> browser \<Rightarrow> systemP \<Rightarrow> bool" where
  "consistentP papa w0 s =
     (let b = uiP s; t = totalP papa b
      in \<not> dirtyP papa s \<and> \<not> storageThrows (envP s)
         \<and> initializedRefP b = hasInitializedRefP b
         \<and> (csvTextP b = [] \<or> trim (csvTextP b) \<noteq> [])
         \<and> (fetchPendingP b \<longrightarrow> csvTextP b = [])
         \<and> (if hasInitializedRefP b
             then 0 \<le> currentIndexP b \<and> currentIndexP b < t
                  \<and> (t < overflowBound \<longrightarrow>
                        getStoredIndex t (getItem (envP s) storedIndex) = currentIndexP b)
             else currentIndexP b = 0 \<and> t = 0 \<and> envP s = w0))"


section \<open>Sample data\<close>

definition sampleRow :: "string \<Rightarrow> string \<Rightarrow> parsed_row" where
  "sampleRow name ind =
     \<lparr> row_site_url = None, row_business_name = Some name, row_industry = Some ind,
       row_company_name = None, row_city = Some ''Toronto, ON'',
       row_phone_number = Some '' 5551234567 '' \<rparr>"

definition samplePapa :: "string parser" where
  "samplePapa text =
     (if text = [] then \<lparr> data = Some [], errors = Some [''UndetectableDelimiter''] \<rparr>
      else \<lparr> data = Some [sampleRow ''Acme'' ''law'', sampleRow ''Bistro'' ''food'',
                          sampleRow ''Court'' ''law'', sampleRow ''Diner'' ''food''],
             errors = None \<rparr>)"

definition raggedPapa :: "string parser" where
  "raggedPapa text =
     \<lparr> data = Some
         [\<lparr> row_site_url = Some ''  '', row_business_name = Some [], row_industry = Some ''law'',
            row_company_name = None, row_city = Some ''Toronto'', row_phone_number = None \<rparr>,
          \<lparr> row_site_url = None, row_business_name = None, row_industry = None,
            row_company_name = None, row_city = None,
            row_phone_number = Some '' 555-CALL-NOW '' \<rparr>],
       errors = None \<rparr>"


definition samplePlain :: plain where
  "samplePlain =
     \<lparr> csvTextP = ''csv'', fetchPendingP = False, currentIndexP = 2, isEditingIndex = True,
       inputIndex = [], initializedRefP = True, hasInitializedRefP = True \<rparr>"

definition sampleApp :: app where
  "sampleApp =
     \<lparr> csvText = ''csv'', fetchPending = False, selectedIndustry = [], currentIndex = 2,
       jumpInput = [], showJumpInput = True, initializedRef = True, hasInitializedRef = True \<rparr>"

definition sampleBusiness :: "string \<Rightarrow> string \<Rightarrow> business" where
  "sampleBusiness name ind =
     \<lparr> site_url = [], business_name = name, industry = ind, company_name = [],
       city = ''Toronto, ON'', phone_number = ''5551234567'' \<rparr>"

definition sampleBusinesses :: "business list" where
  "sampleBusinesses =
     [sampleBusiness ''Acme'' ''law'', sampleBusiness ''Bistro'' ''food'',
      sampleBusiness ''Court'' ''law'', sampleBusiness ''Diner'' ''food'']"


text \<open>A browser that remembers position 2, and the dashboard loaded on it.\<close>

definition sampleBrowser :: browser where
  "sampleBrowser =
     \<lparr> storageThrows = False, storedIndex = Some ''2'', storedIndustry = None,
       urlIndustry = None \<rparr>"

definition sampleSystem :: system where
  "sampleSystem = run samplePapa (mount samplePapa sampleBrowser) [FetchResolved ''csv'']"


definition sampleSystemP :: systemP where
  "sampleSystemP = runP samplePapa (mountP samplePapa sampleBrowser) [FetchResolvedP ''csv'']"


section \<open>Termination of the commit loop\<close>

lemma persistEffect_ui: "ui (persistEffect s) = ui s"
  by (simp add: persistEffect_def Let_def)

lemma restoreEffect_cells:
  "csvText (ui (fst (restoreEffect papa s))) = csvText (ui s)"
  "selectedIndustry (ui (fst (restoreEffect papa s))) = selectedIndustry (ui s)"
  by (simp_all add: restoreEffect_def Let_def)

lemma resetEffect_ui: "ui (fst (resetEffect s)) = ui s"
  by (simp add: resetEffect_def)

lemma commit_lastDeps: "lastDeps (commit papa s) = Some (depsOf papa (ui s))"
  by (simp add: commit_def Let_def)

lemma commit_cells:
  "csvText (ui (commit papa s)) = csvText (ui s)"
  "selectedIndustry (ui (commit papa s)) = selectedIndustry (ui s)"
  by (simp_all add: commit_def Let_def persistEffect_ui restoreEffect_cells resetEffect_ui)

lemma totalOf_cong:
  "csvText a = csvText b \<Longrightarrow> selectedIndustry a = selectedIndustry b
   \<Longrightarrow> totalOf papa a = totalOf papa b"
  by (simp add: totalOf_def activeRows_def businessesOf_def)

lemma commit_total: "totalOf papa (ui (commit papa s)) = totalOf papa (ui s)"
  by (rule totalOf_cong) (simp_all add: commit_cells)

lemma commit_index_only:
  "lastDeps s = Some p \<Longrightarrow> depTotal p = totalOf papa (ui s)
   \<Longrightarrow> depIndustry p = selectedIndustry (ui s)
   \<Longrightarrow> currentIndex (ui (commit papa s)) = currentIndex (ui s)"
  by (simp add: commit_def Let_def restoreDue_def resetDue_def depsOf_def)

lemma settleMeasure_commit_le: "settleMeasure papa (commit papa s) \<le> 1"
  by (simp add: settleMeasure_def commit_lastDeps commit_total commit_cells depsOf_def)

lemma deps_eqI:
  "depIndex p = depIndex d \<Longrightarrow> depIndustry p = depIndustry d \<Longrightarrow> depTotal p = depTotal d
   \<Longrightarrow> p = (d::deps)"
  by simp

lemma settleMeasure_decreases:
  assumes "dirty papa s"
  shows "settleMeasure papa (commit papa s) < settleMeasure papa s"
proof (cases "lastDeps s")
  case None
  then have "settleMeasure papa s = 3" by (simp add: settleMeasure_def)
  with settleMeasure_commit_le [of papa s] show ?thesis by simp
next
  case (Some p)
  show ?thesis
  proof (cases "depTotal p \<noteq> totalOf papa (ui s) \<or> depIndustry p \<noteq> selectedIndustry (ui s)")
    case True
    with Some have "settleMeasure papa s = 2" by (simp add: settleMeasure_def)
    with settleMeasure_commit_le [of papa s] show ?thesis by simp
  next
    case False
    then have t: "depTotal p = totalOf papa (ui s)"
      and f: "depIndustry p = selectedIndustry (ui s)"
      by simp_all
    have "depIndex p \<noteq> currentIndex (ui s)"
    proof
      assume "depIndex p = currentIndex (ui s)"
      with t f have "p = depsOf papa (ui s)"
        by (intro deps_eqI) (simp_all add: depsOf_def)
      with Some assms show False by (simp add: dirty_def)
    qed
    with Some t f have m: "settleMeasure papa s = 1" by (simp add: settleMeasure_def)
    have "currentIndex (ui (commit papa s)) = currentIndex (ui s)"
      using Some t f by (rule commit_index_only)
    then have "settleMeasure papa (commit papa s) = 0"
      by (simp add: settleMeasure_def commit_lastDeps commit_total commit_cells depsOf_def)
    with m show ?thesis by simp
  qed
qed

termination settle
  by (relation "measure (\<lambda>(papa, s). settleMeasure papa s)")
    (simp_all add: settleMeasure_decreases)

declare settle.simps [simp del]


section \<open>Strings\<close>

lemma last_dropWhile: "dropWhile P xs \<noteq> [] \<Longrightarrow> last (dropWhile P xs) = last xs"
  by (induction xs) (auto split: if_splits)

lemma trimmed_trim: "trimmed (trim s)"
proof (cases "trim s = []")
  case True
  then show ?thesis by (simp add: trimmed_def)
next
  case False
  let ?t = "dropWhile isWhiteSpace s"
  let ?u = "dropWhile isWhiteSpace (rev ?t)"
  from False have u: "?u \<noteq> []" by (simp add: trim_def)
  have t: "?t \<noteq> []"
  proof
    assume e: "?t = []"
    have "?u = []" unfolding e by simp
    with u show False by blast
  qed
  have "last (trim s) = hd ?u" using u by (simp add: trim_def last_rev)
  moreover have "\<not> isWhiteSpace (hd ?u)" using u by (rule hd_dropWhile)
  moreover have "hd (trim s) = last ?u" using u by (simp add: trim_def hd_rev)
  moreover have "last ?u = last (rev ?t)" using u by (rule last_dropWhile)
  moreover have "last (rev ?t) = hd ?t" using t by (simp add: last_rev)
  moreover have "\<not> isWhiteSpace (hd ?t)" using t by (rule hd_dropWhile)
  ultimately show ?thesis by (simp add: trimmed_def)
qed

lemma trimmedOrEmpty_trimmed: "trimmed (trimmedOrEmpty field)"
proof (cases field)
  case None
  then show ?thesis by (simp add: trimmedOrEmpty_def trimmed_def)
next
  case (Some s)
  then show ?thesis by (simp add: trimmedOrEmpty_def trimmed_trim)
qed

lemma trimmedOrEmpty_nonBlank: "trimmedOrEmpty field \<noteq> [] \<longleftrightarrow> nonBlank field"
  by (cases field) (simp_all add: trimmedOrEmpty_def nonBlank_def)

lemma allTrimmed_trimFields: "allTrimmed (trimFields r)"
  by (simp add: allTrimmed_def trimFields_def trimmedOrEmpty_trimmed)

lemma hasContact_trimFields: "hasContact (trimFields r) \<longleftrightarrow> tracked r"
  by (simp add: hasContact_def trimFields_def tracked_def trimmedOrEmpty_nonBlank)

lemma filter_map_trimFields:
  "filter hasContact (map trimFields rows) = map trimFields (filter tracked rows)"
  by (induction rows) (simp_all add: hasContact_trimFields)

section \<open>Decimal digits\<close>

lemma isDigit_digit: "(d::nat) < 10 \<Longrightarrow> isDigit (char_of (48 + d))"
  by (simp add: isDigit_def)

lemma digitValue_digit: "(d::nat) < 10 \<Longrightarrow> digitValue (char_of (48 + d)) = int d"
  by (simp add: digitValue_def)

lemma isDigit_not_space: "isDigit c \<Longrightarrow> \<not> isWhiteSpace c"
  by (auto simp: isDigit_def isWhiteSpace_def)

lemma isDigit_not_sign: "isDigit c \<Longrightarrow> c \<noteq> CHR ''-'' \<and> c \<noteq> CHR ''+''"
  by (auto simp: isDigit_def)

lemma digitsOf_nonempty: "digitsOf n \<noteq> []"
  by (subst digitsOf.simps) simp

lemma digitsOf_digits: "list_all isDigit (digitsOf n)"
proof (induction n rule: digitsOf.induct)
  case (1 n)
  show ?case
  proof (cases "n < 10")
    case True
    then show ?thesis by (subst digitsOf.simps) (simp add: isDigit_digit)
  next
    case False
    with 1 have "list_all isDigit (digitsOf (n div 10))" by simp
    moreover have "isDigit (char_of (48 + n mod 10))" by (rule isDigit_digit) simp
    ultimately show ?thesis using False by (subst digitsOf.simps) simp
  qed
qed

lemma mathInt_snoc: "mathInt (z @ [c]) = 10 * mathInt z + digitValue c"
  by (simp add: mathInt_def)

lemma mathInt_digitsOf: "mathInt (digitsOf n) = int n"
proof (induction n rule: digitsOf.induct)
  case (1 n)
  show ?case
  proof (cases "n < 10")
    case True
    then show ?thesis by (subst digitsOf.simps) (simp add: mathInt_def digitValue_digit)
  next
    case False
    with 1 have "mathInt (digitsOf (n div 10)) = int (n div 10)" by simp
    moreover have "digitValue (char_of (48 + n mod 10)) = int (n mod 10)"
      by (rule digitValue_digit) simp
    ultimately have "mathInt (digitsOf n) = 10 * int (n div 10) + int (n mod 10)"
      using False by (subst digitsOf.simps) (simp add: mathInt_snoc)
    then show ?thesis by (simp add: zdiv_int zmod_int)
  qed
qed

lemma takeWhile_all: "list_all P xs \<Longrightarrow> takeWhile P xs = xs"
  by (induction xs) simp_all

lemma dropWhile_none: "xs \<noteq> [] \<Longrightarrow> \<not> P (hd xs) \<Longrightarrow> dropWhile P xs = xs"
  by (cases xs) simp_all

lemma hd_digitsOf: "isDigit (hd (digitsOf n))"
  using digitsOf_digits [of n] digitsOf_nonempty [of n] by (cases "digitsOf n") simp_all

lemma parseInt_digitsOf: "parseInt (digitsOf n) = toNumber (int n)"
proof -
  have a: "dropWhile isWhiteSpace (digitsOf n) = digitsOf n"
    by (rule dropWhile_none) (simp_all add: digitsOf_nonempty hd_digitsOf isDigit_not_space)
  have b: "hd (digitsOf n) \<noteq> CHR ''-''" "hd (digitsOf n) \<noteq> CHR ''+''"
    using isDigit_not_sign [OF hd_digitsOf [of n]] by simp_all
  show ?thesis
    by (simp add: parseInt_def a b Let_def takeWhile_all digitsOf_digits digitsOf_nonempty
        mathInt_digitsOf)
qed

lemma parseInt_numberToString:
  "- overflowBound < n \<Longrightarrow> n < overflowBound \<Longrightarrow> parseInt (numberToString n) = Fin n"
proof (cases "n < 0")
  case False
  assume "n < overflowBound" "- overflowBound < n"
  with False show ?thesis
    by (simp add: numberToString_def parseInt_digitsOf toNumber_def)
next
  case True
  assume "n < overflowBound" "- overflowBound < n"
  moreover have "\<not> isWhiteSpace (CHR ''-'')" by (simp add: isWhiteSpace_def)
  ultimately show ?thesis using True
    by (simp add: numberToString_def parseInt_def Let_def takeWhile_all digitsOf_digits
        digitsOf_nonempty mathInt_digitsOf toNumber_def)
qed


section \<open>Parsing, filtering and formatting\<close>

text \<open>
  Claim C6. The dataset is the list of the parsed rows that have at least one of business
  name, company name, site URL and phone number non-empty after trimming, in their order,
  each with its six fields trimmed (a missing field is the empty string); no field of a
  record of the dataset has white space at either end.
\<close>

theorem parseBusinesses_tracked_rows:
  "fst (parseBusinesses papa txt) =
     (case data (papa (trim txt)) of
        None \<Rightarrow> []
      | Some rows \<Rightarrow> map trimFields (filter tracked rows))
   \<and> (\<forall>b \<in> set (fst (parseBusinesses papa txt)). allTrimmed b)"
proof (cases "data (papa (trim txt))")
  case None
  then show ?thesis by (simp add: parseBusinesses_def Let_def)
next
  case (Some rows)
  then have "fst (parseBusinesses papa txt) = map trimFields (filter tracked rows)"
    by (simp add: parseBusinesses_def Let_def filter_map_trimFields)
  with Some show ?thesis by (auto simp: allTrimmed_trimFields)
qed

theorem parseBusinesses_tracked_rows_witness:
  "fst (parseBusinesses raggedPapa ''csv'') =
     [\<lparr> site_url = [], business_name = [], industry = [], company_name = [], city = [],
        phone_number = ''555-CALL-NOW'' \<rparr>]
   \<and> allTrimmed \<lparr> site_url = [], business_name = [], industry = [], company_name = [], city = [],
        phone_number = ''555-CALL-NOW'' \<rparr>"
  using parseBusinesses_tracked_rows [of raggedPapa "''csv''"]
  by (simp add: raggedPapa_def tracked_def nonBlank_def trim_def isWhiteSpace_def trimFields_def
      trimmedOrEmpty_def)

text \<open>
  Claim C7. With a non-empty filter value the active rows are the rows of the dataset whose
  industry equals the value: a subsequence of the dataset, every row of it with that
  industry, and every such row of the dataset as often as in the dataset. With the empty
  value the active rows are the whole dataset.
\<close>

theorem filteredBusinesses_subsequence:
  "(f \<noteq> [] \<longrightarrow>
      filteredBusinesses bs f = filter (\<lambda>b. industry b = f) bs
      \<and> subseq (filteredBusinesses bs f) bs
      \<and> (\<forall>b \<in> set (filteredBusinesses bs f). industry b = f)
      \<and> (\<forall>b \<in> set bs. industry b = f \<longrightarrow>
            count_list (filteredBusinesses bs f) b = count_list bs b))
   \<and> filteredBusinesses bs [] = bs"
proof -
  have c: "industry b = f \<Longrightarrow> count_list (filter (\<lambda>b. industry b = f) bs) b = count_list bs b"
    for b
    by (induction bs) simp_all
  show ?thesis by (simp add: filteredBusinesses_def c)
qed

theorem filteredBusinesses_subsequence_witness:
  "''law'' \<noteq> []
   \<and> filteredBusinesses sampleBusinesses ''law'' =
       [sampleBusiness ''Acme'' ''law'', sampleBusiness ''Court'' ''law'']
   \<and> subseq [sampleBusiness ''Acme'' ''law'', sampleBusiness ''Court'' ''law''] sampleBusinesses
   \<and> sampleBusiness ''Court'' ''law'' \<in> set sampleBusinesses
   \<and> count_list (filteredBusinesses sampleBusinesses ''law'') (sampleBusiness ''Court'' ''law'') = 1
   \<and> filteredBusinesses sampleBusinesses [] = sampleBusinesses"
  using filteredBusinesses_subsequence [of "''law''" sampleBusinesses]
  by (simp add: sampleBusinesses_def sampleBusiness_def)

text \<open>
  Claim C8. A phone string with exactly ten digits is shown as \<^verbatim>\<open>(XXX) XXX-XXXX\<close> built
  from these digits in order; any other string is shown as it is.
\<close>

theorem formatPhoneNumber_shape:
  "(filter isDigit p = [a, b, c, d, e, f, g, h, i, j] \<longrightarrow>
      formatPhoneNumber p =
        [CHR ''('', a, b, c, CHR '')'', CHR '' '', d, e, f, CHR ''-'', g, h, i, j])
   \<and> (length (filter isDigit p) \<noteq> 10 \<longrightarrow> formatPhoneNumber p = p)
   \<and> formatPhoneNumber ''5551234567'' = ''(555) 123-4567''
   \<and> formatPhoneNumber ''555-CALL-NOW'' = ''555-CALL-NOW''"
  by (simp add: formatPhoneNumber_def slice_def isDigit_def)

theorem formatPhoneNumber_shape_witness:
  "filter isDigit ''555.123.4567 x'' = ''5551234567''
   \<and> formatPhoneNumber ''555.123.4567 x'' = ''(555) 123-4567''
   \<and> length (filter isDigit ''911'') \<noteq> 10 \<and> formatPhoneNumber ''911'' = ''911''"
  using formatPhoneNumber_shape [of "''555.123.4567 x''" "CHR ''5''" "CHR ''5''" "CHR ''5''"
      "CHR ''1''" "CHR ''2''" "CHR ''3''" "CHR ''4''" "CHR ''5''" "CHR ''6''" "CHR ''7''"]
    formatPhoneNumber_shape [of "''911''"]
  by (simp add: isDigit_def)

lemma filter_isDigit_formatted:
  assumes "list_all isDigit ds"
  shows "filter isDigit (''('' @ slice 0 3 ds @ '') '' @ slice 3 6 ds @ ''-'' @ drop 6 ds) = ds"
proof -
  have keep: "filter isDigit (take n (drop m ds)) = take n (drop m ds)" for n m
    using assms by (simp add: list_all_iff filter_id_conv) (meson in_set_dropD in_set_takeD)
  have keep': "filter isDigit (drop m ds) = drop m ds" for m
    using assms by (simp add: list_all_iff filter_id_conv) (meson in_set_dropD)
  have "take 3 ds @ take 3 (drop 3 ds) @ drop 6 ds = ds"
  proof -
    have "take 3 (drop 3 ds) @ drop 3 (drop 3 ds) = drop 3 ds" by (rule append_take_drop_id)
    then have "take 3 (drop 3 ds) @ drop 6 ds = drop 3 ds" by simp
    then show ?thesis by simp
  qed
  then show ?thesis
    using keep [of 3 0] keep [of 3 3] keep' [of 6] by (simp add: slice_def isDigit_def)
qed

lemma formatPhoneNumber_ten:
  "filter isDigit q = ds \<Longrightarrow> length ds = 10
   \<Longrightarrow> formatPhoneNumber q = ''('' @ slice 0 3 ds @ '') '' @ slice 3 6 ds @ ''-'' @ drop 6 ds"
  by (simp add: formatPhoneNumber_def Let_def)

text \<open>
  Claim C10. Formatting a phone string twice gives what formatting it once gives.
\<close>

theorem formatPhoneNumber_idempotent:
  "formatPhoneNumber (formatPhoneNumber p) = formatPhoneNumber p"
proof (cases "length (filter isDigit p) = 10")
  case False
  then show ?thesis by (simp add: formatPhoneNumber_def)
next
  case True
  let ?ds = "filter isDigit p"
  let ?out = "''('' @ slice 0 3 ?ds @ '') '' @ slice 3 6 ?ds @ ''-'' @ drop 6 ?ds"
  have out: "formatPhoneNumber p = ?out" using refl True by (rule formatPhoneNumber_ten)
  have "list_all isDigit ?ds" by (simp add: list_all_iff)
  then have "filter isDigit ?out = ?ds" by (rule filter_isDigit_formatted)
  then have "formatPhoneNumber ?out = ?out"
    using True by (rule formatPhoneNumber_ten)
  with out show ?thesis by simp
qed

text \<open>
  Claim C9. Whatever the storage holds or does, \<^verbatim>\<open>getStoredIndex\<close> returns 0 for the length 0
  and an index between 0 and the length minus one for a positive length.
\<close>

theorem getStoredIndex_in_bounds:
  "getStoredIndex 0 item = 0
   \<and> (0 < total' \<longrightarrow> 0 \<le> getStoredIndex total' item \<and> getStoredIndex total' item \<le> total' - 1)"
  by (auto simp: getStoredIndex_def clamp_def Let_def split: attempt.split option.split number.split)

theorem getStoredIndex_in_bounds_witness:
  "(0::int) < 4
   \<and> getStoredIndex 4 (Returned (Some ''99'')) = 3
   \<and> getStoredIndex 4 (Returned (Some ''-7'')) = 0
   \<and> getStoredIndex 4 (Returned (Some ''abc'')) = 0
   \<and> getStoredIndex 4 (Returned None) = 0
   \<and> getStoredIndex 4 Threw = 0
   \<and> 0 \<le> getStoredIndex 4 (Returned (Some ''99''))
   \<and> getStoredIndex 4 (Returned (Some ''99'')) \<le> 4 - 1"
  using getStoredIndex_in_bounds [of "Returned (Some ''99'')" 4]
  by (simp add: getStoredIndex_def parseInt_def isWhiteSpace_def isDigit_def mathInt_def
      digitValue_def toNumber_def overflowBound_def clamp_def)


section \<open>Jumping to a position\<close>

lemma totalOf_jumpInput: "totalOf papa (a\<lparr>jumpInput := v\<rparr>) = totalOf papa a"
  by (simp add: totalOf_def activeRows_def businessesOf_def)

lemma totalP_inputIndex: "totalP papa (b\<lparr>inputIndex := v\<rparr>) = totalP papa b"
  by (simp add: totalP_def)

lemma jumpTo_index:
  assumes "totalOf papa a < overflowBound"
  shows "currentIndex (jumpTo papa n a) =
           (if 1 \<le> n \<and> n \<le> totalOf papa a then n - 1 else currentIndex a)"
proof -
  have ob: "0 < overflowBound" by (simp add: overflowBound_def)
  consider "n \<le> - overflowBound" | "- overflowBound < n" "n < overflowBound" | "overflowBound \<le> n"
    by linarith
  then show ?thesis
  proof cases
    case 1
    then have "n < 0" using ob by linarith
    with 1 ob have "parseInt (numberToString n) = NegInf"
      by (simp add: numberToString_def parseInt_def Let_def isWhiteSpace_def takeWhile_all
          digitsOf_digits digitsOf_nonempty mathInt_digitsOf toNumber_def)
    moreover have "\<not> 1 \<le> n" using \<open>n < 0\<close> by simp
    ultimately show ?thesis by (simp add: jumpTo_def handleJump_def)
  next
    case 2
    then have "parseInt (numberToString n) = Fin n" by (rule parseInt_numberToString)
    then show ?thesis by (simp add: jumpTo_def handleJump_def totalOf_jumpInput)
  next
    case 3
    then have "parseInt (numberToString n) = PosInf"
      using ob by (simp add: numberToString_def parseInt_digitsOf toNumber_def)
    moreover have "\<not> n \<le> totalOf papa a" using 3 assms by linarith
    ultimately show ?thesis by (simp add: jumpTo_def handleJump_def)
  qed
qed

text \<open>
  Claim C4, as amended. In the dashboard with the filter, the number \<open>n\<close> typed into the
  jump input sets the index to \<open>n - 1\<close> exactly when \<open>1 \<le> n \<le> L\<close>, and leaves it as it is
  otherwise, as does an input that is no number; jumping to 1 sets the index to 0. In the
  dashboard without the filter, \<^verbatim>\<open>commitIndex\<close> applies every number, clamped into
  \<open>[0, L - 1]\<close>, and leaves the index as it is only for an input that is no number.
\<close>

theorem jump_applied_or_clamped:
  assumes "0 < totalOf papa a" and "totalOf papa a < overflowBound"
    and "0 \<le> currentIndex a" and "currentIndex a < totalOf papa a"
  shows "(currentIndex (jumpTo papa n a) = n - 1 \<longleftrightarrow> 1 \<le> n \<and> n \<le> totalOf papa a)
    \<and> (\<not> (1 \<le> n \<and> n \<le> totalOf papa a) \<longrightarrow> currentIndex (jumpTo papa n a) = currentIndex a)
    \<and> (parseInt (jumpInput a) = NaN \<longrightarrow> handleJump papa a = a)
    \<and> currentIndex (jumpTo papa 1 a) = 0
    \<and> (- overflowBound < n \<and> n < overflowBound \<longrightarrow>
          currentIndexP (jumpToP papa n b) = clamp (n - 1) 0 (totalP papa b - 1))
    \<and> (parseInt (inputIndex b) = NaN \<longrightarrow> currentIndexP (commitIndex papa b) = currentIndexP b)"
proof -
  have 1: "currentIndex (jumpTo papa n a) = n - 1 \<longleftrightarrow> 1 \<le> n \<and> n \<le> totalOf papa a"
    using assms by (auto simp: jumpTo_index)
  have 2: "\<not> (1 \<le> n \<and> n \<le> totalOf papa a) \<longrightarrow> currentIndex (jumpTo papa n a) = currentIndex a"
    using assms by (simp add: jumpTo_index)
  have 3: "parseInt (jumpInput a) = NaN \<longrightarrow> handleJump papa a = a"
    by (simp add: handleJump_def)
  have 4: "currentIndex (jumpTo papa 1 a) = 0"
    using assms by (simp add: jumpTo_index)
  have 5: "- overflowBound < n \<and> n < overflowBound \<longrightarrow>
          currentIndexP (jumpToP papa n b) = clamp (n - 1) 0 (totalP papa b - 1)"
    by (simp add: jumpToP_def commitIndex_def parseInt_numberToString totalP_inputIndex)
  have 6: "parseInt (inputIndex b) = NaN \<longrightarrow> currentIndexP (commitIndex papa b) = currentIndexP b"
    by (simp add: commitIndex_def)
  from 1 2 3 4 5 6 show ?thesis by blast
qed

lemma sample_total: "totalOf samplePapa sampleApp = 4"
  by code_simp

lemma sample_totalP: "totalP samplePapa samplePlain = 4"
  by code_simp

lemma overflowBound_big: "4 < overflowBound"
  by (simp add: overflowBound_def)

text \<open>
  With four rows and the index at 2, \<^verbatim>\<open>commitIndex\<close> moves the index to 0 for the input 0
  and to 3 for the input 5: neither input is ignored.
\<close>

theorem commitIndex_clamps_counterexample:
  "totalP samplePapa samplePlain = 4 \<and> currentIndexP samplePlain = 2
   \<and> currentIndexP (jumpToP samplePapa 0 samplePlain) = 0
   \<and> currentIndexP (jumpToP samplePapa 0 samplePlain) \<noteq> currentIndexP samplePlain
   \<and> currentIndexP (jumpToP samplePapa 5 samplePlain) = 3
   \<and> currentIndexP (jumpToP samplePapa 5 samplePlain) \<noteq> currentIndexP samplePlain"
  by code_simp

theorem jump_applied_or_clamped_witness:
  "0 < totalOf samplePapa sampleApp \<and> totalOf samplePapa sampleApp < overflowBound
   \<and> 0 \<le> currentIndex sampleApp \<and> currentIndex sampleApp < totalOf samplePapa sampleApp
   \<and> currentIndex (jumpTo samplePapa 4 sampleApp) = 3
   \<and> currentIndex (jumpTo samplePapa 5 sampleApp) = 2
   \<and> currentIndex (jumpTo samplePapa 0 sampleApp) = 2
   \<and> parseInt (jumpInput sampleApp) = NaN \<and> handleJump samplePapa sampleApp = sampleApp
   \<and> currentIndexP (jumpToP samplePapa 9 samplePlain) = 3
   \<and> parseInt (inputIndex samplePlain) = NaN
   \<and> currentIndexP (commitIndex samplePapa samplePlain) = 2"
proof -
  have t: "totalOf samplePapa sampleApp = 4" by (rule sample_total)
  have tp: "totalP samplePapa samplePlain = 4" by (rule sample_totalP)
  have i: "currentIndex sampleApp = 2" by (simp add: sampleApp_def)
  have ip: "currentIndexP samplePlain = 2" by (simp add: samplePlain_def)
  have nan: "parseInt (jumpInput sampleApp) = NaN" by (simp add: sampleApp_def parseInt_def)
  have nanp: "parseInt (inputIndex samplePlain) = NaN" by (simp add: samplePlain_def parseInt_def)
  have b: "(- overflowBound < 9 \<and> 9 < overflowBound) = True" by (simp add: overflowBound_def)
  have c: "clamp 8 0 3 = 3" by (simp add: clamp_def)
  show ?thesis
    using jump_applied_or_clamped [of samplePapa sampleApp 4 samplePlain]
      jump_applied_or_clamped [of samplePapa sampleApp 5 samplePlain]
      jump_applied_or_clamped [of samplePapa sampleApp 0 samplePlain]
      jump_applied_or_clamped [of samplePapa sampleApp 9 samplePlain]
    by (simp add: t tp i ip nan nanp b c overflowBound_big)
qed


section \<open>The commit loop\<close>

lemma settle_clean: "\<not> dirty papa s \<Longrightarrow> settle papa s = s"
  by (subst settle.simps) simp

lemma settle_dirty: "dirty papa s \<Longrightarrow> settle papa s = settle papa (commit papa s)"
  by (subst settle.simps) simp

lemma settle_not_dirty: "\<not> dirty papa (settle papa s)"
proof (induction papa s rule: settle.induct)
  case (1 papa s)
  show ?case
  proof (cases "dirty papa s")
    case True
    with 1 show ?thesis by (simp add: settle_dirty)
  next
    case False
    then show ?thesis by (simp add: settle_clean)
  qed
qed

lemma settle_preserves:
  "(\<And>t. P t \<Longrightarrow> P (commit papa t)) \<Longrightarrow> P s \<Longrightarrow> P (settle papa s)"
proof (induction papa s rule: settle.induct)
  case (1 papa s)
  show ?case
  proof (cases "dirty papa s")
    case True
    have "P (commit papa s)" using "1.prems" by blast
    with True "1.IH" "1.prems"(1) have "P (settle papa (commit papa s))" by blast
    with True show ?thesis by (simp add: settle_dirty)
  next
    case False
    with "1.prems"(2) show ?thesis by (simp add: settle_clean)
  qed
qed

subsection \<open>What a commit leaves alone\<close>

lemma persistEffect_fields:
  "lastDeps (persistEffect s) = lastDeps s"
  "storageThrows (env (persistEffect s)) = storageThrows (env s)"
  by (simp_all add: persistEffect_def Let_def)

text \<open>With only the index changed since the last commit, the commit is the persist effect.\<close>

lemma app_index_same: "a\<lparr>currentIndex := currentIndex a\<rparr> = (a::app)"
  by simp

lemma commit_index_dirty:
  assumes "lastDeps s = Some p" and "depTotal p = totalOf papa (ui s)"
    and "depIndustry p = selectedIndustry (ui s)" and "depIndex p \<noteq> currentIndex (ui s)"
  shows "commit papa s = (persistEffect s)\<lparr>lastDeps := Some (depsOf papa (ui s))\<rparr>"
  using assms
  by (simp add: commit_def Let_def persistDue_def restoreDue_def resetDue_def depsOf_def
      persistEffect_ui)

lemma dirty_iff:
  "dirty papa s \<longleftrightarrow>
     (case lastDeps s of
        None \<Rightarrow> True
      | Some p \<Rightarrow> depIndex p \<noteq> currentIndex (ui s) \<or> depIndustry p \<noteq> selectedIndustry (ui s)
                 \<or> depTotal p \<noteq> totalOf papa (ui s))"
proof (cases "lastDeps s")
  case None
  then show ?thesis by (simp add: dirty_def)
next
  case (Some p)
  have "p = depsOf papa (ui s) \<longleftrightarrow>
        depIndex p = currentIndex (ui s) \<and> depIndustry p = selectedIndustry (ui s)
        \<and> depTotal p = totalOf papa (ui s)"
    by (cases p) (auto simp: depsOf_def)
  with Some show ?thesis by (auto simp: dirty_def)
qed

lemma settle_index_dirty:
  assumes "lastDeps s = Some p" and "depTotal p = totalOf papa (ui s)"
    and "depIndustry p = selectedIndustry (ui s)" and "depIndex p \<noteq> currentIndex (ui s)"
  shows "settle papa s = (persistEffect s)\<lparr>lastDeps := Some (depsOf papa (ui s))\<rparr>"
proof -
  have d: "dirty papa s" using assms by (simp add: dirty_iff)
  have c: "commit papa s = (persistEffect s)\<lparr>lastDeps := Some (depsOf papa (ui s))\<rparr>"
    using assms by (rule commit_index_dirty)
  have "\<not> dirty papa ((persistEffect s)\<lparr>lastDeps := Some (depsOf papa (ui s))\<rparr>)"
    by (simp add: dirty_def persistEffect_ui)
  with d c show ?thesis by (simp add: settle_dirty settle_clean)
qed


section \<open>Writes wait for the hydration\<close>

lemma wfh_after: "Hydrate \<in> set tr \<Longrightarrow> writesFollowHydration (tr @ xs) = writesFollowHydration tr"
  unfolding writesFollowHydration_def by (subst takeWhile_append1 [of Hydrate]) simp_all

lemma wfh_before:
  "Hydrate \<notin> set tr \<Longrightarrow>
   writesFollowHydration (tr @ xs) = (list_all (\<lambda>x. \<not> isWrite x) tr \<and> writesFollowHydration xs)"
proof -
  assume "Hydrate \<notin> set tr"
  then have "takeWhile (\<lambda>x. x \<noteq> Hydrate) (tr @ xs) = tr @ takeWhile (\<lambda>x. x \<noteq> Hydrate) xs"
    by (intro takeWhile_append2) auto
  then show ?thesis by (simp add: writesFollowHydration_def)
qed

lemma wfh_quiet: "Hydrate \<notin> set tr \<Longrightarrow> writesFollowHydration tr = list_all (\<lambda>x. \<not> isWrite x) tr"
  using wfh_before [of tr "[]"] by (simp add: writesFollowHydration_def)

lemma guarded_persist: "guarded w0 s \<Longrightarrow> guarded w0 (persistEffect s)"
  by (auto simp: guarded_def persistEffect_def Let_def wfh_after)

lemma wfh_single: "writesFollowHydration [x] = (x = Hydrate \<or> \<not> isWrite x)"
  by (simp add: writesFollowHydration_def)

lemma guarded_restore: "guarded w0 s \<Longrightarrow> guarded w0 (fst (restoreEffect papa s))"
  by (auto simp: guarded_def restoreEffect_def Let_def wfh_before wfh_quiet wfh_single)

lemma guarded_reset: "guarded w0 s \<Longrightarrow> guarded w0 (fst (resetEffect s))"
  by (auto simp: guarded_def resetEffect_def wfh_after wfh_before wfh_quiet wfh_single
      isWrite_def)

lemma guarded_finish:
  "guarded w0 s \<Longrightarrow> guarded w0 (s\<lparr>ui := (ui s)\<lparr>currentIndex := i\<rparr>, lastDeps := d\<rparr>)"
  by (simp add: guarded_def)

lemma guarded_commit: "guarded w0 s \<Longrightarrow> guarded w0 (commit papa s)"
  by (simp add: commit_def Let_def guarded_finish guarded_reset guarded_restore guarded_persist)

lemma guarded_settle: "guarded w0 s \<Longrightarrow> guarded w0 (settle papa s)"
  by (rule settle_preserves) (simp_all add: guarded_commit)

lemma react_refs:
  "initializedRef (react papa e a) = initializedRef a"
  "hasInitializedRef (react papa e a) = hasInitializedRef a"
  by (cases e; simp add: handlePrevious_def handleNext_def handleJump_def split: number.split)+

lemma guarded_step: "guarded w0 s \<Longrightarrow> guarded w0 (step papa s e)"
proof -
  assume "guarded w0 s"
  then have "guarded w0 (s\<lparr>ui := react papa e (ui s)\<rparr>)"
    by (simp add: guarded_def react_refs)
  then show ?thesis unfolding step_def by (rule guarded_settle)
qed

lemma guarded_run: "guarded w0 s \<Longrightarrow> guarded w0 (run papa s es)"
  unfolding run_def by (induction es arbitrary: s) (simp_all add: guarded_step)

lemma guarded_mount: "guarded w (mount papa w)"
  unfolding mount_def
  by (rule guarded_settle) (simp add: guarded_def initialApp_def Let_def writesFollowHydration_def)

lemma guard_filter:
  "writesFollowHydration (log (run papa (mount papa w) es))
   \<and> count_list (log (run papa (mount papa w) es)) Hydrate \<le> 1
   \<and> (\<not> hasInitializedRef (ui (run papa (mount papa w) es)) \<longrightarrow>
        env (run papa (mount papa w) es) = w
        \<and> list_all (\<lambda>x. \<not> isWrite x) (log (run papa (mount papa w) es)))"
proof -
  have g: "guarded w (run papa (mount papa w) es)"
    by (rule guarded_run) (rule guarded_mount)
  then show ?thesis by (auto simp: guarded_def wfh_quiet)
qed


section \<open>One event on a settled system\<close>

lemma clean_lastDeps: "\<not> dirty papa s \<Longrightarrow> lastDeps s = Some (depsOf papa (ui s))"
  by (simp add: dirty_def)

lemma settle_same_deps:
  assumes "\<not> dirty papa s" and "depsOf papa a' = depsOf papa (ui s)"
  shows "settle papa (s\<lparr>ui := a'\<rparr>) = s\<lparr>ui := a'\<rparr>"
proof -
  have "\<not> dirty papa (s\<lparr>ui := a'\<rparr>)" using assms by (simp add: dirty_def)
  then show ?thesis by (rule settle_clean)
qed

lemma settle_new_index:
  assumes "\<not> dirty papa s" and "csvText a' = csvText (ui s)"
    and "selectedIndustry a' = selectedIndustry (ui s)"
    and "currentIndex a' \<noteq> currentIndex (ui s)"
  shows "settle papa (s\<lparr>ui := a'\<rparr>) =
           (persistEffect (s\<lparr>ui := a'\<rparr>))\<lparr>lastDeps := Some (depsOf papa a')\<rparr>"
proof -
  let ?s = "s\<lparr>ui := a'\<rparr>"
  let ?p = "depsOf papa (ui s)"
  have t: "totalOf papa a' = totalOf papa (ui s)" using assms(2,3) by (rule totalOf_cong)
  have "lastDeps ?s = Some ?p" using assms(1) by (simp add: clean_lastDeps)
  moreover have "depTotal ?p = totalOf papa (ui ?s)" using t by (simp add: depsOf_def)
  moreover have "depIndustry ?p = selectedIndustry (ui ?s)" using assms(3) by (simp add: depsOf_def)
  moreover have "depIndex ?p \<noteq> currentIndex (ui ?s)" using assms(4) by (simp add: depsOf_def)
  ultimately have "settle papa ?s = (persistEffect ?s)\<lparr>lastDeps := Some (depsOf papa (ui ?s))\<rparr>"
    by (rule settle_index_dirty)
  then show ?thesis by simp
qed

lemma react_navigation:
  assumes "isNavigation e"
  shows "csvText (react papa e a) = csvText a"
    and "selectedIndustry (react papa e a) = selectedIndustry a"
    and "fetchPending (react papa e a) = fetchPending a"
  using assms
  by (cases e; simp add: isNavigation_def handlePrevious_def handleNext_def handleJump_def
      split: number.split)+

lemma react_navigation_total:
  "isNavigation e \<Longrightarrow> totalOf papa (react papa e a) = totalOf papa a"
  by (rule totalOf_cong) (simp_all add: react_navigation)

lemma step_navigation_ui:
  assumes "\<not> dirty papa s" and "isNavigation e"
  shows "ui (step papa s e) = react papa e (ui s)"
proof (cases "currentIndex (react papa e (ui s)) = currentIndex (ui s)")
  case True
  have "depsOf papa (react papa e (ui s)) = depsOf papa (ui s)"
    using True assms(2) by (simp add: depsOf_def react_navigation react_navigation_total)
  with assms(1) show ?thesis by (simp add: step_def settle_same_deps)
next
  case False
  with assms show ?thesis
    by (simp add: step_def settle_new_index react_navigation persistEffect_ui)
qed

lemma step_clean: "\<not> dirty papa (step papa s e)"
  by (simp add: step_def settle_not_dirty)

lemma step_identity:
  assumes "\<not> dirty papa s" and "react papa e (ui s) = ui s"
  shows "step papa s e = s"
  using assms by (simp add: step_def settle_clean)

section \<open>Previous and next\<close>

lemma react_navigation_range:
  assumes "isNavigation e" and "0 \<le> currentIndex a" and "currentIndex a < totalOf papa a"
  shows "0 \<le> currentIndex (react papa e a) \<and> currentIndex (react papa e a) < totalOf papa a"
  using assms
  by (cases e; simp add: isNavigation_def handlePrevious_def handleNext_def handleJump_def
      canGoBack_def canGoNext_def totalOf_jumpInput split: number.split)+

lemma run_navigation:
  assumes "list_all isNavigation es" and "\<not> dirty papa s"
    and "0 \<le> currentIndex (ui s)" and "currentIndex (ui s) < totalOf papa (ui s)"
  shows "0 \<le> currentIndex (ui (run papa s es))
       \<and> currentIndex (ui (run papa s es)) < totalOf papa (ui s)
       \<and> totalOf papa (ui (run papa s es)) = totalOf papa (ui s)"
  using assms
proof (induction es arbitrary: s)
  case Nil
  then show ?case by (simp add: run_def)
next
  case (Cons e es)
  let ?s = "step papa s e"
  from Cons.prems have e: "isNavigation e" and es: "list_all isNavigation es" by simp_all
  have u: "ui ?s = react papa e (ui s)" using Cons.prems(2) e by (rule step_navigation_ui)
  have t: "totalOf papa (ui ?s) = totalOf papa (ui s)" using e by (simp add: u react_navigation_total)
  have r: "0 \<le> currentIndex (ui ?s) \<and> currentIndex (ui ?s) < totalOf papa (ui ?s)"
    using react_navigation_range [OF e Cons.prems(3,4)] e
    by (simp add: u react_navigation_total)
  have "0 \<le> currentIndex (ui (run papa ?s es))
       \<and> currentIndex (ui (run papa ?s es)) < totalOf papa (ui ?s)
       \<and> totalOf papa (ui (run papa ?s es)) = totalOf papa (ui ?s)"
    using es step_clean r by (intro Cons.IH) simp_all
  then show ?case by (simp add: run_def t)
qed

lemma arrows_filter:
  assumes "\<not> dirty papa s"
    and "0 \<le> currentIndex (ui s)" and "currentIndex (ui s) < totalOf papa (ui s)"
  shows "currentIndex (ui (step papa s ClickPrevious)) = max 0 (currentIndex (ui s) - 1)
    \<and> currentIndex (ui (step papa s ClickNext))
        = min (totalOf papa (ui s) - 1) (currentIndex (ui s) + 1)
    \<and> (currentIndex (ui s) = 0 \<longrightarrow> step papa s ClickPrevious = s)
    \<and> (currentIndex (ui s) = totalOf papa (ui s) - 1 \<longrightarrow> step papa s ClickNext = s)
    \<and> (list_all isNavigation es \<longrightarrow>
          0 \<le> currentIndex (ui (run papa s es))
          \<and> currentIndex (ui (run papa s es)) \<le> totalOf papa (ui s) - 1
          \<and> totalOf papa (ui (run papa s es)) = totalOf papa (ui s))"
proof -
  have p: "currentIndex (ui (step papa s ClickPrevious)) = max 0 (currentIndex (ui s) - 1)"
    using assms by (simp add: step_navigation_ui isNavigation_def handlePrevious_def canGoBack_def)
  have n: "currentIndex (ui (step papa s ClickNext))
        = min (totalOf papa (ui s) - 1) (currentIndex (ui s) + 1)"
    using assms by (simp add: step_navigation_ui isNavigation_def handleNext_def canGoNext_def)
  have p0: "currentIndex (ui s) = 0 \<longrightarrow> step papa s ClickPrevious = s"
    using assms(1) by (simp add: step_identity handlePrevious_def canGoBack_def)
  have n0: "currentIndex (ui s) = totalOf papa (ui s) - 1 \<longrightarrow> step papa s ClickNext = s"
    using assms(1) by (simp add: step_identity handleNext_def canGoNext_def)
  have r: "list_all isNavigation es \<longrightarrow>
          0 \<le> currentIndex (ui (run papa s es))
          \<and> currentIndex (ui (run papa s es)) \<le> totalOf papa (ui s) - 1
          \<and> totalOf papa (ui (run papa s es)) = totalOf papa (ui s)"
    using run_navigation [of es papa s] assms by auto
  from p n p0 n0 r show ?thesis by blast
qed


section \<open>Changing the filter\<close>

lemma persistEffect_resets:
  "count_list (log (persistEffect s)) ResetIndex = count_list (log s) ResetIndex"
  by (simp add: persistEffect_def Let_def)

lemma restoreEffect_resets:
  "count_list (log (fst (restoreEffect papa s))) ResetIndex = count_list (log s) ResetIndex"
  by (simp add: restoreEffect_def Let_def)

text \<open>No reset while the filter is what it was at the last commit.\<close>

lemma commit_same_industry:
  assumes "lastDeps s = Some p" and "depIndustry p = selectedIndustry (ui s)"
  shows "count_list (log (commit papa s)) ResetIndex = count_list (log s) ResetIndex"
  using assms
  by (simp add: commit_def Let_def resetDue_def depsOf_def persistEffect_resets
      restoreEffect_resets)

lemma settle_same_industry:
  assumes "lastDeps s = Some p" and "depIndustry p = selectedIndustry (ui s)"
  shows "count_list (log (settle papa s)) ResetIndex = count_list (log s) ResetIndex"
proof -
  let ?P = "\<lambda>t. (\<exists>q. lastDeps t = Some q \<and> depIndustry q = selectedIndustry (ui t))
                \<and> count_list (log t) ResetIndex = count_list (log s) ResetIndex"
  have "?P (settle papa s)"
  proof (rule settle_preserves)
    show "?P s" using assms by simp
  next
    fix t :: system
    assume "?P t"
    then obtain q where q: "lastDeps t = Some q" "depIndustry q = selectedIndustry (ui t)"
      and c: "count_list (log t) ResetIndex = count_list (log s) ResetIndex" by blast
    have "count_list (log (commit papa t)) ResetIndex = count_list (log t) ResetIndex"
      using q by (rule commit_same_industry)
    then show "?P (commit papa t)"
      using c by (simp add: commit_lastDeps commit_cells depsOf_def)
  qed
  then show ?thesis by simp
qed

lemma step_same_industry:
  assumes "\<not> dirty papa s" and "selectedIndustry (react papa e (ui s)) = selectedIndustry (ui s)"
  shows "count_list (log (step papa s e)) ResetIndex = count_list (log s) ResetIndex"
proof -
  let ?s = "s\<lparr>ui := react papa e (ui s)\<rparr>"
  have "lastDeps ?s = Some (depsOf papa (ui s))" using assms(1) by (simp add: clean_lastDeps)
  moreover have "depIndustry (depsOf papa (ui s)) = selectedIndustry (ui ?s)"
    using assms(2) by (simp add: depsOf_def)
  ultimately have "count_list (log (settle papa ?s)) ResetIndex = count_list (log ?s) ResetIndex"
    by (rule settle_same_industry)
  then show ?thesis by (simp add: step_def)
qed

text \<open>The commit after a change of the filter, once hydrated: persist, then reset.\<close>

lemma commit_new_industry:
  assumes "lastDeps s = Some p" and "depIndustry p \<noteq> selectedIndustry (ui s)"
    and "initializedRef (ui s)" and "hasInitializedRef (ui s)"
  shows "ui (commit papa s) = (ui s)\<lparr>currentIndex := 0\<rparr>"
    and "log (commit papa s) = log (persistEffect s) @ [ResetIndex]"
    and "env (commit papa s) = env (persistEffect s)"
  using assms
  by (simp_all add: commit_def Let_def persistDue_def restoreDue_def resetDue_def depsOf_def
      restoreEffect_def resetEffect_def persistEffect_ui)

lemma settle_new_industry:
  assumes "lastDeps s = Some p" and "depIndustry p \<noteq> selectedIndustry (ui s)"
    and "initializedRef (ui s)" and "hasInitializedRef (ui s)"
  shows "ui (settle papa s) = (ui s)\<lparr>currentIndex := 0\<rparr>"
    and "count_list (log (settle papa s)) ResetIndex = count_list (log s) ResetIndex + 1"
proof -
  let ?c = "commit papa s"
  have d: "dirty papa s" using assms(1,2) by (simp add: dirty_iff)
  have u: "ui ?c = (ui s)\<lparr>currentIndex := 0\<rparr>" using assms by (rule commit_new_industry)
  have l: "log ?c = log (persistEffect s) @ [ResetIndex]" using assms by (rule commit_new_industry)
  have ld: "lastDeps ?c = Some (depsOf papa (ui s))" by (rule commit_lastDeps)
  have t: "totalOf papa (ui ?c) = totalOf papa (ui s)" by (rule commit_total)
  have n: "count_list (log ?c) ResetIndex = count_list (log s) ResetIndex + 1"
    by (simp add: l persistEffect_resets)
  have s: "settle papa s = settle papa ?c" using d by (rule settle_dirty)
  have both: "ui (settle papa ?c) = ui ?c
     \<and> count_list (log (settle papa ?c)) ResetIndex = count_list (log ?c) ResetIndex"
  proof (cases "currentIndex (ui s) = 0")
    case True
    then have i0: "currentIndex (ui ?c) = currentIndex (ui s)" by (simp add: u)
    have f0: "selectedIndustry (ui ?c) = selectedIndustry (ui s)" by (simp add: u)
    have "\<not> dirty papa ?c" by (simp add: dirty_iff ld t i0 f0 depsOf_def)
    then show ?thesis by (simp add: settle_clean)
  next
    case False
    have "settle papa ?c = (persistEffect ?c)\<lparr>lastDeps := Some (depsOf papa (ui ?c))\<rparr>"
      using ld
    proof (rule settle_index_dirty)
      show "depTotal (depsOf papa (ui s)) = totalOf papa (ui ?c)" by (simp add: t depsOf_def)
      show "depIndustry (depsOf papa (ui s)) = selectedIndustry (ui ?c)" by (simp add: u depsOf_def)
      show "depIndex (depsOf papa (ui s)) \<noteq> currentIndex (ui ?c)" using False by (simp add: u depsOf_def)
    qed
    then show ?thesis by (simp add: persistEffect_ui persistEffect_resets)
  qed
  show "ui (settle papa s) = (ui s)\<lparr>currentIndex := 0\<rparr>" using both by (simp add: s u)
  show "count_list (log (settle papa s)) ResetIndex = count_list (log s) ResetIndex + 1"
    using both by (simp add: s n)
qed

lemma app_industry_same: "selectedIndustry a = v \<Longrightarrow> a\<lparr>selectedIndustry := v\<rparr> = (a::app)"
  by auto

lemma react_not_select:
  "(\<forall>v. e \<noteq> SelectIndustry v) \<Longrightarrow> selectedIndustry (react papa e a) = selectedIndustry a"
  by (cases e; simp add: handlePrevious_def handleNext_def handleJump_def split: number.split)+

text \<open>
  Claim C3. On a settled, hydrated dashboard, choosing another industry sets the index to
  0 by exactly one run of the reset effect; choosing the same industry again changes
  nothing, so two selections in a row reset once; and no other event runs the reset
  effect.
\<close>

theorem filter_change_resets_once:
  assumes "\<not> dirty papa s" and "initializedRef (ui s)" and "hasInitializedRef (ui s)"
  shows "(cardVisible papa (ui s)
          \<and> (v = [] \<or> v \<in> set (industries (businessesOf papa (ui s))))
          \<and> v \<noteq> selectedIndustry (ui s) \<longrightarrow>
            currentIndex (ui (step papa s (SelectIndustry v))) = 0
            \<and> selectedIndustry (ui (step papa s (SelectIndustry v))) = v
            \<and> count_list (log (step papa s (SelectIndustry v))) ResetIndex
                = count_list (log s) ResetIndex + 1)
    \<and> step papa (step papa s (SelectIndustry v)) (SelectIndustry v)
        = step papa s (SelectIndustry v)
    \<and> count_list (log (step papa (step papa s (SelectIndustry v)) (SelectIndustry v))) ResetIndex
        \<le> count_list (log s) ResetIndex + 1
    \<and> ((\<forall>u. e \<noteq> SelectIndustry u) \<longrightarrow>
          count_list (log (step papa s e)) ResetIndex = count_list (log s) ResetIndex)"
proof -
  let ?e = "SelectIndustry v"
  let ?s1 = "step papa s ?e"
  have a: "cardVisible papa (ui s)
          \<and> (v = [] \<or> v \<in> set (industries (businessesOf papa (ui s))))
          \<and> v \<noteq> selectedIndustry (ui s) \<longrightarrow>
            currentIndex (ui ?s1) = 0 \<and> selectedIndustry (ui ?s1) = v
            \<and> count_list (log ?s1) ResetIndex = count_list (log s) ResetIndex + 1"
  proof
    assume h: "cardVisible papa (ui s)
          \<and> (v = [] \<or> v \<in> set (industries (businessesOf papa (ui s))))
          \<and> v \<noteq> selectedIndustry (ui s)"
    let ?t = "s\<lparr>ui := (ui s)\<lparr>selectedIndustry := v\<rparr>\<rparr>"
    have st: "?s1 = settle papa ?t" using h by (simp add: step_def)
    have 1: "lastDeps ?t = Some (depsOf papa (ui s))" using assms(1) by (simp add: clean_lastDeps)
    have 2: "depIndustry (depsOf papa (ui s)) \<noteq> selectedIndustry (ui ?t)"
      using h by (auto simp: depsOf_def)
    have 3: "initializedRef (ui ?t)" "hasInitializedRef (ui ?t)" using assms(2,3) by simp_all
    have "ui (settle papa ?t) = (ui ?t)\<lparr>currentIndex := 0\<rparr>"
      using 1 2 3 by (rule settle_new_industry)
    moreover have "count_list (log (settle papa ?t)) ResetIndex = count_list (log ?t) ResetIndex + 1"
      using 1 2 3 by (rule settle_new_industry)
    ultimately show "currentIndex (ui ?s1) = 0 \<and> selectedIndustry (ui ?s1) = v
            \<and> count_list (log ?s1) ResetIndex = count_list (log s) ResetIndex + 1"
      by (simp add: st)
  qed
  have b: "step papa ?s1 ?e = ?s1"
  proof (cases "cardVisible papa (ui s) \<and> (v = [] \<or> v \<in> set (industries (businessesOf papa (ui s))))")
    case False
    then have "react papa ?e (ui s) = ui s" by auto
    with assms(1) have "?s1 = s" by (rule step_identity)
    then show ?thesis by simp
  next
    case True
    have v: "selectedIndustry (ui ?s1) = v"
    proof (cases "v = selectedIndustry (ui s)")
      case True
      then have "react papa ?e (ui s) = ui s" by (auto simp: app_industry_same)
      with assms(1) have "?s1 = s" by (rule step_identity)
      with True show ?thesis by simp
    next
      case False
      with True a show ?thesis by blast
    qed
    then have "react papa ?e (ui ?s1) = ui ?s1" by (auto simp: app_industry_same)
    with step_clean show ?thesis by (rule step_identity)
  qed
  have c: "count_list (log ?s1) ResetIndex \<le> count_list (log s) ResetIndex + 1"
  proof (cases "selectedIndustry (react papa ?e (ui s)) = selectedIndustry (ui s)")
    case True
    with assms(1) have "count_list (log ?s1) ResetIndex = count_list (log s) ResetIndex"
      by (rule step_same_industry)
    then show ?thesis by simp
  next
    case False
    then have "cardVisible papa (ui s)
          \<and> (v = [] \<or> v \<in> set (industries (businessesOf papa (ui s))))
          \<and> v \<noteq> selectedIndustry (ui s)"
      by (auto split: if_splits)
    with a show ?thesis by simp
  qed
  have d: "(\<forall>u. e \<noteq> SelectIndustry u) \<longrightarrow>
          count_list (log (step papa s e)) ResetIndex = count_list (log s) ResetIndex"
    using assms(1) by (auto intro: step_same_industry simp: react_not_select)
  from a b c d show ?thesis by simp
qed


section \<open>Restoring the position\<close>

lemma total_of_empty_text:
  "fst (parseBusinesses papa []) = [] \<Longrightarrow> csvText a = [] \<Longrightarrow> totalOf papa a = 0"
  by (simp add: totalOf_def activeRows_def businessesOf_def filteredBusinesses_def)

lemma initialApp_fields:
  assumes "fst (parseBusinesses papa []) = []"
  shows "initialApp papa w =
     \<lparr> csvText = [], fetchPending = True, selectedIndustry = initialIndustry w,
       currentIndex = 0, jumpInput = [], showJumpInput = False,
       initializedRef = False, hasInitializedRef = False \<rparr>"
  using assms by (simp add: initialApp_def Let_def total_of_empty_text getStoredIndex_def)

lemma commit_quiet:
  assumes "\<not> initializedRef (ui s)" and "\<not> hasInitializedRef (ui s)" and "totalOf papa (ui s) = 0"
  shows "commit papa s = s\<lparr>lastDeps := Some (depsOf papa (ui s))\<rparr>"
  using assms
  by (simp add: commit_def Let_def persistEffect_def restoreEffect_def resetEffect_def)

lemma mount_value:
  assumes "fst (parseBusinesses papa []) = []"
  shows "mount papa w =
     \<lparr> ui = initialApp papa w, lastDeps = Some (depsOf papa (initialApp papa w)),
       env = w, log = [] \<rparr>"
proof -
  let ?s = "\<lparr> ui = initialApp papa w, lastDeps = None, env = w, log = [] \<rparr>"
  have t: "totalOf papa (ui ?s) = 0"
    using assms by (simp add: total_of_empty_text initialApp_fields)
  have r: "\<not> initializedRef (ui ?s)" "\<not> hasInitializedRef (ui ?s)"
    using assms by (simp_all add: initialApp_fields)
  have c: "commit papa ?s = ?s\<lparr>lastDeps := Some (depsOf papa (ui ?s))\<rparr>"
    using r t by (rule commit_quiet)
  have d: "dirty papa ?s" by (simp add: dirty_def)
  have "\<not> dirty papa (?s\<lparr>lastDeps := Some (depsOf papa (ui ?s))\<rparr>)" by (simp add: dirty_def)
  with d c have "settle papa ?s = ?s\<lparr>lastDeps := Some (depsOf papa (ui ?s))\<rparr>"
    by (simp add: settle_dirty settle_clean)
  then show ?thesis by (simp add: mount_def)
qed

lemma consistent_mount:
  assumes "fst (parseBusinesses papa []) = []" and "\<not> storageThrows w"
  shows "consistent papa w (mount papa w)"
  using assms
  by (simp add: mount_value consistent_def Let_def dirty_def initialApp_fields total_of_empty_text)

text \<open>The commits after the CSV text has arrived: hydrate, then persist a restored index.\<close>

lemma commit_hydrate:
  assumes "lastDeps s = Some p" and "depIndustry p = selectedIndustry (ui s)"
    and "depIndex p = currentIndex (ui s)" and "depTotal p \<noteq> totalOf papa (ui s)"
    and "\<not> initializedRef (ui s)" and "0 < totalOf papa (ui s)"
  shows "ui (commit papa s) =
           (ui s)\<lparr>initializedRef := True, hasInitializedRef := True,
                  currentIndex := getStoredIndex (totalOf papa (ui s)) (getItem (env s) storedIndex)\<rparr>"
    and "env (commit papa s) = env s"
    and "log (commit papa s) = log s @ [Hydrate]"
  using assms
  by (simp_all add: commit_def Let_def persistDue_def restoreDue_def resetDue_def depsOf_def
      restoreEffect_def)

lemma settle_hydrate:
  assumes "lastDeps s = Some p" and "depIndustry p = selectedIndustry (ui s)"
    and "depIndex p = currentIndex (ui s)" and "depTotal p \<noteq> totalOf papa (ui s)"
    and "\<not> initializedRef (ui s)" and "0 < totalOf papa (ui s)"
  shows "ui (settle papa s) = ui (commit papa s)"
    and "env (settle papa s) =
           (if currentIndex (ui (commit papa s)) = currentIndex (ui s) then env s
            else env (persistEffect (commit papa s)))"
proof -
  let ?c = "commit papa s"
  have d: "dirty papa s" using assms(1,4) by (simp add: dirty_iff)
  have s: "settle papa s = settle papa ?c" using d by (rule settle_dirty)
  have ld: "lastDeps ?c = Some (depsOf papa (ui s))" by (rule commit_lastDeps)
  have t: "totalOf papa (ui ?c) = totalOf papa (ui s)" by (rule commit_total)
  have f: "selectedIndustry (ui ?c) = selectedIndustry (ui s)" by (rule commit_cells)
  have e: "env ?c = env s" using assms by (rule commit_hydrate)
  have both: "ui (settle papa ?c) = ui ?c
     \<and> env (settle papa ?c) =
           (if currentIndex (ui ?c) = currentIndex (ui s) then env s else env (persistEffect ?c))"
  proof (cases "currentIndex (ui ?c) = currentIndex (ui s)")
    case True
    then have "\<not> dirty papa ?c" by (simp add: dirty_iff ld t f depsOf_def)
    then show ?thesis using True by (simp add: settle_clean e)
  next
    case False
    have "settle papa ?c = (persistEffect ?c)\<lparr>lastDeps := Some (depsOf papa (ui ?c))\<rparr>"
      using ld
    proof (rule settle_index_dirty)
      show "depTotal (depsOf papa (ui s)) = totalOf papa (ui ?c)" by (simp add: t depsOf_def)
      show "depIndustry (depsOf papa (ui s)) = selectedIndustry (ui ?c)" by (simp add: f depsOf_def)
      show "depIndex (depsOf papa (ui s)) \<noteq> currentIndex (ui ?c)" using False by (simp add: depsOf_def)
    qed
    then show ?thesis using False by (simp add: persistEffect_ui)
  qed
  show "ui (settle papa s) = ui (commit papa s)" using both by (simp add: s)
  show "env (settle papa s) =
           (if currentIndex (ui (commit papa s)) = currentIndex (ui s) then env s
            else env (persistEffect (commit papa s)))"
    using both by (simp add: s)
qed

text \<open>What the persist effect leaves in a working storage, and what that restores.\<close>

lemma persistEffect_env:
  assumes "hasInitializedRef (ui s)" and "\<not> storageThrows (env s)"
  shows "storedIndex (env (persistEffect s)) = Some (numberToString (currentIndex (ui s)))"
    and "storedIndustry (env (persistEffect s)) = Some (selectedIndustry (ui s))"
    and "urlIndustry (env (persistEffect s)) =
           (if selectedIndustry (ui s) \<noteq> [] then Some (selectedIndustry (ui s)) else None)"
    and "\<not> storageThrows (env (persistEffect s))"
  using assms by (simp_all add: persistEffect_def Let_def)

lemma initialIndustry_persisted:
  assumes "hasInitializedRef (ui s)" and "\<not> storageThrows (env s)"
  shows "initialIndustry (env (persistEffect s)) = selectedIndustry (ui s)"
  using persistEffect_env [OF assms]
  by (simp add: initialIndustry_def getItem_def Let_def)

lemma numberToString_nonempty: "numberToString n \<noteq> []"
  by (simp add: numberToString_def digitsOf_nonempty)

lemma getStoredIndex_numeral:
  assumes "0 \<le> i" and "i < t" and "t < overflowBound"
  shows "getStoredIndex t (Returned (Some (numberToString i))) = i"
proof -
  have "0 < overflowBound" by (simp add: overflowBound_def)
  with assms have "parseInt (numberToString i) = Fin i"
    by (intro parseInt_numberToString) linarith+
  with assms show ?thesis
    by (simp add: getStoredIndex_def numberToString_nonempty clamp_def)
qed

lemma getStoredIndex_persisted:
  assumes "hasInitializedRef (ui s)" and "\<not> storageThrows (env s)"
    and "0 \<le> currentIndex (ui s)" and "currentIndex (ui s) < t" and "t < overflowBound"
  shows "getStoredIndex t (getItem (env (persistEffect s)) storedIndex) = currentIndex (ui s)"
  using persistEffect_env [OF assms(1,2)] assms(3-5)
  by (simp add: getItem_def getStoredIndex_numeral)


lemma getStoredIndex_range:
  "0 < t \<Longrightarrow> 0 \<le> getStoredIndex t item \<and> getStoredIndex t item < t"
  by (auto simp: getStoredIndex_def clamp_def Let_def
      split: attempt.split option.split number.split)

lemma industries_member:
  "v \<in> set (industries bs) \<Longrightarrow> v \<noteq> [] \<and> (\<exists>b \<in> set bs. industry b = v)"
  by (auto simp: industries_def)

lemma total_after_select:
  assumes "cardVisible papa a" and "v = [] \<or> v \<in> set (industries (businessesOf papa a))"
  shows "0 < totalOf papa (a\<lparr>selectedIndustry := v\<rparr>)"
proof -
  let ?bs = "businessesOf papa a"
  have bs: "businessesOf papa (a\<lparr>selectedIndustry := v\<rparr>) = ?bs" by (simp add: businessesOf_def)
  from assms(1) have "filteredBusinesses ?bs (selectedIndustry a) \<noteq> []"
    by (auto simp: cardVisible_def totalOf_def activeRows_def)
  then have ne: "?bs \<noteq> []" by (auto simp: filteredBusinesses_def split: if_splits)
  from assms(2) have "filteredBusinesses ?bs v \<noteq> []"
  proof
    assume "v = []"
    with ne show ?thesis by (simp add: filteredBusinesses_def)
  next
    assume "v \<in> set (industries ?bs)"
    then have "v \<noteq> []" and "\<exists>b \<in> set ?bs. industry b = v"
      using industries_member by blast+
    then show ?thesis by (auto simp: filteredBusinesses_def filter_empty_conv)
  qed
  then show ?thesis by (simp add: totalOf_def activeRows_def bs)
qed

lemma settle_new_industry_env:
  assumes "lastDeps s = Some p" and "depIndustry p \<noteq> selectedIndustry (ui s)"
    and "initializedRef (ui s)" and "hasInitializedRef (ui s)"
  shows "env (settle papa s) =
           (if currentIndex (ui s) = 0 then env (persistEffect s)
            else env (persistEffect (commit papa s)))"
proof -
  let ?c = "commit papa s"
  have d: "dirty papa s" using assms(1,2) by (simp add: dirty_iff)
  have u: "ui ?c = (ui s)\<lparr>currentIndex := 0\<rparr>" using assms by (rule commit_new_industry)
  have e: "env ?c = env (persistEffect s)" using assms by (rule commit_new_industry)
  have ld: "lastDeps ?c = Some (depsOf papa (ui s))" by (rule commit_lastDeps)
  have t: "totalOf papa (ui ?c) = totalOf papa (ui s)" by (rule commit_total)
  have f0: "selectedIndustry (ui ?c) = selectedIndustry (ui s)" by (simp add: u)
  have s: "settle papa s = settle papa ?c" using d by (rule settle_dirty)
  show ?thesis
  proof (cases "currentIndex (ui s) = 0")
    case True
    then have i0: "currentIndex (ui ?c) = currentIndex (ui s)" by (simp add: u)
    have "\<not> dirty papa ?c" by (simp add: dirty_iff ld t i0 f0 depsOf_def)
    then show ?thesis using True by (simp add: s settle_clean e)
  next
    case False
    have "settle papa ?c = (persistEffect ?c)\<lparr>lastDeps := Some (depsOf papa (ui ?c))\<rparr>"
      using ld
    proof (rule settle_index_dirty)
      show "depTotal (depsOf papa (ui s)) = totalOf papa (ui ?c)" by (simp add: t depsOf_def)
      show "depIndustry (depsOf papa (ui s)) = selectedIndustry (ui ?c)" by (simp add: u depsOf_def)
      show "depIndex (depsOf papa (ui s)) \<noteq> currentIndex (ui ?c)" using False by (simp add: u depsOf_def)
    qed
    then show ?thesis using False by (simp add: s)
  qed
qed

text \<open>A hydrated system whose last act was the persist effect is consistent.\<close>

lemma consistent_after_persist:
  assumes "\<not> dirty papa t" and "ui t = ui s" and "env t = env (persistEffect s)"
    and "hasInitializedRef (ui s)" and "initializedRef (ui s)" and "\<not> storageThrows (env s)"
    and "0 \<le> currentIndex (ui s)" and "currentIndex (ui s) < totalOf papa (ui s)"
    and "csvText (ui s) = [] \<or> trim (csvText (ui s)) \<noteq> []"
    and "fetchPending (ui s) \<longrightarrow> csvText (ui s) = []"
  shows "consistent papa w0 t"
  using assms
  by (simp add: consistent_def Let_def persistEffect_env initialIndustry_persisted
      getStoredIndex_persisted)


lemma react_navigation_unhydrated:
  assumes "isNavigation e" and "totalOf papa a = 0" and "currentIndex a = 0"
  shows "currentIndex (react papa e a) = 0"
  using assms
  by (cases e; simp add: isNavigation_def handlePrevious_def handleNext_def canGoBack_def
      canGoNext_def cardVisible_def)+

lemma consistent_same_deps:
  assumes "consistent papa w0 s"
    and "csvText a' = csvText (ui s)" and "selectedIndustry a' = selectedIndustry (ui s)"
    and "currentIndex a' = currentIndex (ui s)"
    and "initializedRef a' = initializedRef (ui s)"
    and "hasInitializedRef a' = hasInitializedRef (ui s)"
    and "fetchPending a' \<longrightarrow> fetchPending (ui s)"
  shows "consistent papa w0 (settle papa (s\<lparr>ui := a'\<rparr>))"
proof -
  have t: "totalOf papa a' = totalOf papa (ui s)" using assms(2,3) by (rule totalOf_cong)
  have d: "depsOf papa a' = depsOf papa (ui s)" using assms(3,4) t by (simp add: depsOf_def)
  have clean: "\<not> dirty papa s" using assms(1) by (simp add: consistent_def Let_def)
  then have "settle papa (s\<lparr>ui := a'\<rparr>) = s\<lparr>ui := a'\<rparr>" using d by (rule settle_same_deps)
  moreover have "consistent papa w0 (s\<lparr>ui := a'\<rparr>)"
    using assms t d by (simp add: consistent_def Let_def dirty_def)
  ultimately show ?thesis by simp
qed

lemma consistent_step_navigation:
  assumes "consistent papa w0 s" and "isNavigation e"
  shows "consistent papa w0 (step papa s e)"
proof (cases "currentIndex (react papa e (ui s)) = currentIndex (ui s)")
  case True
  show ?thesis unfolding step_def using assms(1)
  proof (rule consistent_same_deps)
    show "currentIndex (react papa e (ui s)) = currentIndex (ui s)" by (rule True)
  qed (simp_all add: react_navigation react_refs assms(2))
next
  case False
  let ?a = "react papa e (ui s)"
  let ?s = "s\<lparr>ui := ?a\<rparr>"
  have clean: "\<not> dirty papa s" using assms(1) by (simp add: consistent_def Let_def)
  have cells: "csvText ?a = csvText (ui s)" "selectedIndustry ?a = selectedIndustry (ui s)"
    "fetchPending ?a = fetchPending (ui s)"
    using assms(2) by (simp_all add: react_navigation)
  have t: "totalOf papa ?a = totalOf papa (ui s)" using assms(2) by (rule react_navigation_total)
  have hyd: "hasInitializedRef (ui s)"
  proof (rule ccontr)
    assume "\<not> hasInitializedRef (ui s)"
    with assms(1) have "totalOf papa (ui s) = 0" "currentIndex (ui s) = 0"
      by (simp_all add: consistent_def Let_def)
    with assms(2) have "currentIndex ?a = 0" by (intro react_navigation_unhydrated)
    with \<open>currentIndex (ui s) = 0\<close> False show False by simp
  qed
  with assms(1) have r: "0 \<le> currentIndex (ui s)" "currentIndex (ui s) < totalOf papa (ui s)"
    and i: "initializedRef (ui s)" and nt: "\<not> storageThrows (env s)"
    and csv: "csvText (ui s) = [] \<or> trim (csvText (ui s)) \<noteq> []"
    and fp: "fetchPending (ui s) \<longrightarrow> csvText (ui s) = []"
    by (simp_all add: consistent_def Let_def)
  have r': "0 \<le> currentIndex ?a \<and> currentIndex ?a < totalOf papa (ui s)"
    using assms(2) r by (rule react_navigation_range)
  have st: "step papa s e = (persistEffect ?s)\<lparr>lastDeps := Some (depsOf papa ?a)\<rparr>"
    unfolding step_def using clean cells(1,2) False by (rule settle_new_index)
  show ?thesis
  proof (rule consistent_after_persist [where s = ?s])
    show "\<not> dirty papa (step papa s e)" by (rule step_clean)
    show "ui (step papa s e) = ui ?s" by (simp add: st persistEffect_ui)
    show "env (step papa s e) = env (persistEffect ?s)" by (simp add: st)
    show "hasInitializedRef (ui ?s)" using hyd by (simp add: react_refs)
    show "initializedRef (ui ?s)" using i by (simp add: react_refs)
    show "\<not> storageThrows (env ?s)" using nt by simp
    show "0 \<le> currentIndex (ui ?s)" using r' by simp
    show "currentIndex (ui ?s) < totalOf papa (ui ?s)" using r' t by simp
    show "csvText (ui ?s) = [] \<or> trim (csvText (ui ?s)) \<noteq> []" using csv cells by simp
    show "fetchPending (ui ?s) \<longrightarrow> csvText (ui ?s) = []" using fp cells by simp
  qed
qed

lemma consistent_step_select:
  assumes "consistent papa w0 s"
  shows "consistent papa w0 (step papa s (SelectIndustry v))"
proof (cases "cardVisible papa (ui s)
    \<and> (v = [] \<or> v \<in> set (industries (businessesOf papa (ui s))))
    \<and> v \<noteq> selectedIndustry (ui s)")
  case False
  then have "react papa (SelectIndustry v) (ui s) = ui s" by (auto simp: app_industry_same)
  moreover have "\<not> dirty papa s" using assms by (simp add: consistent_def Let_def)
  ultimately have "step papa s (SelectIndustry v) = s" by (intro step_identity)
  with assms show ?thesis by simp
next
  case True
  let ?a = "(ui s)\<lparr>selectedIndustry := v\<rparr>"
  let ?s = "s\<lparr>ui := ?a\<rparr>"
  let ?c = "commit papa ?s"
  have st: "step papa s (SelectIndustry v) = settle papa ?s" using True by (simp add: step_def)
  have clean: "\<not> dirty papa s" using assms by (simp add: consistent_def Let_def)
  have pos: "0 < totalOf papa (ui s)" using True by (simp add: cardVisible_def)
  have hyd: "hasInitializedRef (ui s)"
  proof (rule ccontr)
    assume "\<not> hasInitializedRef (ui s)"
    with assms have "totalOf papa (ui s) = 0" by (simp add: consistent_def Let_def)
    with pos show False by simp
  qed
  with assms have i: "initializedRef (ui s)" and nt: "\<not> storageThrows (env s)"
    and csv: "csvText (ui s) = [] \<or> trim (csvText (ui s)) \<noteq> []"
    and fp: "fetchPending (ui s) \<longrightarrow> csvText (ui s) = []"
    by (simp_all add: consistent_def Let_def)
  have t': "0 < totalOf papa ?a" using True by (intro total_after_select) simp_all
  have 1: "lastDeps ?s = Some (depsOf papa (ui s))" using clean by (simp add: clean_lastDeps)
  have 2: "depIndustry (depsOf papa (ui s)) \<noteq> selectedIndustry (ui ?s)"
    using True by (auto simp: depsOf_def)
  have 3: "initializedRef (ui ?s)" "hasInitializedRef (ui ?s)" using i hyd by simp_all
  have u: "ui (settle papa ?s) = ?a\<lparr>currentIndex := 0\<rparr>"
    using settle_new_industry(1) [OF 1 2 3] by simp
  have e: "env (settle papa ?s) =
           (if currentIndex (ui ?s) = 0 then env (persistEffect ?s) else env (persistEffect ?c))"
    using 1 2 3 by (rule settle_new_industry_env)
  have cu: "ui ?c = ?a\<lparr>currentIndex := 0\<rparr>" using commit_new_industry(1) [OF 1 2 3] by simp
  have ce: "env ?c = env (persistEffect ?s)" using 1 2 3 by (rule commit_new_industry)
  have tt: "totalOf papa (?a\<lparr>currentIndex := 0\<rparr>) = totalOf papa ?a"
    by (rule totalOf_cong) simp_all
  show ?thesis
  proof (cases "currentIndex (ui s) = 0")
    case True
    then have same: "?a\<lparr>currentIndex := 0\<rparr> = ?a" by (auto simp: app_index_same)
    show ?thesis unfolding st
    proof (rule consistent_after_persist [where s = ?s])
      show "\<not> dirty papa (settle papa ?s)" by (rule settle_not_dirty)
      show "ui (settle papa ?s) = ui ?s" using u same by simp
      show "env (settle papa ?s) = env (persistEffect ?s)" using e True by simp
      show "hasInitializedRef (ui ?s)" "initializedRef (ui ?s)" using 3 by simp_all
      show "\<not> storageThrows (env ?s)" using nt by simp
      show "0 \<le> currentIndex (ui ?s)" using True by simp
      show "currentIndex (ui ?s) < totalOf papa (ui ?s)" using True t' by simp
      show "csvText (ui ?s) = [] \<or> trim (csvText (ui ?s)) \<noteq> []" using csv by simp
      show "fetchPending (ui ?s) \<longrightarrow> csvText (ui ?s) = []" using fp by simp
    qed
  next
    case False
    show ?thesis unfolding st
    proof (rule consistent_after_persist [where s = ?c])
      show "\<not> dirty papa (settle papa ?s)" by (rule settle_not_dirty)
      show "ui (settle papa ?s) = ui ?c" using u cu by simp
      show "env (settle papa ?s) = env (persistEffect ?c)" using e False by simp
      show "hasInitializedRef (ui ?c)" "initializedRef (ui ?c)" using 3 by (simp_all add: cu)
      show "\<not> storageThrows (env ?c)" using nt by (simp add: ce persistEffect_fields)
      show "0 \<le> currentIndex (ui ?c)" by (simp add: cu)
      show "currentIndex (ui ?c) < totalOf papa (ui ?c)" using t' tt by (simp add: cu)
      show "csvText (ui ?c) = [] \<or> trim (csvText (ui ?c)) \<noteq> []" using csv by (simp add: cu)
      show "fetchPending (ui ?c) \<longrightarrow> csvText (ui ?c) = []" using fp by (simp add: cu)
    qed
  qed
qed


lemma consistent_step_fetch:
  assumes pe: "fst (parseBusinesses papa []) = []" and c: "consistent papa w0 s"
  shows "consistent papa w0 (step papa s (FetchResolved text))"
proof -
  have clean: "\<not> dirty papa s" and nt: "\<not> storageThrows (env s)"
    and refs: "initializedRef (ui s) = hasInitializedRef (ui s)"
    using c by (simp_all add: consistent_def Let_def)
  show ?thesis
  proof (cases "fetchPending (ui s)")
    case False
    then have "react papa (FetchResolved text) (ui s) = ui s" by simp
    with clean have "step papa s (FetchResolved text) = s" by (rule step_identity)
    with c show ?thesis by simp
  next
    case True
    with c have empty: "csvText (ui s) = []" by (simp add: consistent_def Let_def)
    with pe have t0: "totalOf papa (ui s) = 0" by (rule total_of_empty_text)
    have unh: "\<not> hasInitializedRef (ui s)"
    proof
      assume "hasInitializedRef (ui s)"
      with c have "0 \<le> currentIndex (ui s) \<and> currentIndex (ui s) < totalOf papa (ui s)"
        by (simp add: consistent_def Let_def)
      with t0 show False by simp
    qed
    with c have i0: "currentIndex (ui s) = 0" and w: "env s = w0"
      and f: "selectedIndustry (ui s) = initialIndustry w0"
      by (simp_all add: consistent_def Let_def)
    show ?thesis
    proof (cases "trim text = []")
      case blank: True
      show ?thesis unfolding step_def using c
      proof (rule consistent_same_deps)
      qed (simp_all add: True blank)
    next
      case filled: False
      let ?a = "(ui s)\<lparr>csvText := text, fetchPending := False\<rparr>"
      let ?s = "s\<lparr>ui := ?a\<rparr>"
      let ?t = "totalOf papa ?a"
      let ?k = "getStoredIndex ?t (getItem (env s) storedIndex)"
      have st: "step papa s (FetchResolved text) = settle papa ?s"
        using True filled by (simp add: step_def)
      show ?thesis
      proof (cases "?t = 0")
        case none: True
        have "depsOf papa ?a = depsOf papa (ui s)" using none t0 by (simp add: depsOf_def)
        with clean have "settle papa ?s = ?s" by (rule settle_same_deps)
        moreover have "consistent papa w0 ?s"
          using clean nt refs unh i0 w f none t0 filled
          by (simp add: consistent_def Let_def dirty_def depsOf_def)
        ultimately show ?thesis by (simp add: st)
      next
        case some: False
        then have pos: "0 < ?t" by (simp add: totalOf_def)
        let ?c = "commit papa ?s"
        have 1: "lastDeps ?s = Some (depsOf papa (ui s))" using clean by (simp add: clean_lastDeps)
        have 2: "depIndustry (depsOf papa (ui s)) = selectedIndustry (ui ?s)"
          by (simp add: depsOf_def)
        have 3: "depIndex (depsOf papa (ui s)) = currentIndex (ui ?s)" by (simp add: depsOf_def)
        have 4: "depTotal (depsOf papa (ui s)) \<noteq> totalOf papa (ui ?s)"
          using some t0 by (simp add: depsOf_def)
        have 5: "\<not> initializedRef (ui ?s)" using unh refs by simp
        have 6: "0 < totalOf papa (ui ?s)" using pos by simp
        have cu: "ui ?c = ?a\<lparr>initializedRef := True, hasInitializedRef := True, currentIndex := ?k\<rparr>"
          using commit_hydrate(1) [OF 1 2 3 4 5 6] by simp
        have ce: "env ?c = env s" using commit_hydrate(2) [OF 1 2 3 4 5 6] by simp
        have u: "ui (settle papa ?s) = ui ?c" using 1 2 3 4 5 6 by (rule settle_hydrate)
        have e: "env (settle papa ?s) =
              (if currentIndex (ui ?c) = currentIndex (ui ?s) then env ?s else env (persistEffect ?c))"
          using 1 2 3 4 5 6 by (rule settle_hydrate)
        have tc: "totalOf papa (ui ?c) = ?t" by (simp add: commit_total)
        have k: "0 \<le> ?k \<and> ?k < ?t" using pos by (rule getStoredIndex_range)
        have ki: "currentIndex (ui ?c) = ?k" by (simp add: cu)
        show ?thesis
        proof (cases "?k = 0")
          case True
          then have "env (settle papa ?s) = env s" using e i0 ki by simp
          then show ?thesis
            unfolding st consistent_def Let_def
            using settle_not_dirty [of papa ?s] nt w f filled pos True
            by (simp add: u tc) (simp add: cu)
        next
          case False
          show ?thesis unfolding st
          proof (rule consistent_after_persist [where s = ?c])
            show "\<not> dirty papa (settle papa ?s)" by (rule settle_not_dirty)
            show "ui (settle papa ?s) = ui ?c" by (rule u)
            show "env (settle papa ?s) = env (persistEffect ?c)" using e False i0 ki by simp
            show "hasInitializedRef (ui ?c)" "initializedRef (ui ?c)" by (simp_all add: cu)
            show "\<not> storageThrows (env ?c)" using nt by (simp add: ce)
            show "0 \<le> currentIndex (ui ?c)" using k ki by simp
            show "currentIndex (ui ?c) < totalOf papa (ui ?c)" using k ki tc by simp
            show "csvText (ui ?c) = [] \<or> trim (csvText (ui ?c)) \<noteq> []" using filled by (simp add: cu)
            show "fetchPending (ui ?c) \<longrightarrow> csvText (ui ?c) = []" by (simp add: cu)
          qed
        qed
      qed
    qed
  qed
qed

lemma consistent_step:
  assumes "fst (parseBusinesses papa []) = []" and "consistent papa w0 s"
  shows "consistent papa w0 (step papa s e)"
proof (cases "isNavigation e")
  case True
  with assms(2) show ?thesis by (rule consistent_step_navigation)
next
  case False
  then consider body where "e = FetchResolved body" | v where "e = SelectIndustry v"
    by (cases e) (simp_all add: isNavigation_def)
  then show ?thesis
  proof cases
    case 1
    with assms show ?thesis by (simp add: consistent_step_fetch)
  next
    case 2
    with assms(2) show ?thesis by (simp add: consistent_step_select)
  qed
qed

lemma consistent_run:
  assumes "fst (parseBusinesses papa []) = []" and "consistent papa w0 s"
  shows "consistent papa w0 (run papa s es)"
  using assms(2) unfolding run_def
  by (induction es arbitrary: s) (simp_all add: consistent_step assms(1))


lemma currentBusiness_cong:
  "csvText a = csvText b \<Longrightarrow> selectedIndustry a = selectedIndustry b
   \<Longrightarrow> currentIndex a = currentIndex b \<Longrightarrow> currentBusiness papa a = currentBusiness papa b"
  by (simp add: currentBusiness_def totalOf_def activeRows_def businessesOf_def)

text \<open>A fresh start on the browser \<open>w1\<close>, then the arrival of a CSV text with active rows.\<close>

lemma restart_restores:
  assumes pe: "fst (parseBusinesses papa []) = []" and filled: "trim body \<noteq> []"
    and pos: "0 < totalOf papa ((initialApp papa w1)\<lparr>csvText := body, fetchPending := False\<rparr>)"
  shows "ui (run papa (mount papa w1) [FetchResolved body]) =
     (initialApp papa w1)
       \<lparr>csvText := body, fetchPending := False, initializedRef := True, hasInitializedRef := True,
        currentIndex :=
          getStoredIndex (totalOf papa ((initialApp papa w1)\<lparr>csvText := body, fetchPending := False\<rparr>))
            (getItem w1 storedIndex)\<rparr>"
proof -
  let ?init = "initialApp papa w1"
  let ?m = "\<lparr> ui = ?init, lastDeps = Some (depsOf papa ?init), env = w1, log = [] \<rparr>"
  let ?a = "?init\<lparr>csvText := body, fetchPending := False\<rparr>"
  let ?s = "?m\<lparr>ui := ?a\<rparr>"
  have m: "mount papa w1 = ?m" using pe by (rule mount_value)
  have a0: "fetchPending ?init" "csvText ?init = []" "\<not> initializedRef ?init" "currentIndex ?init = 0"
    using pe by (simp_all add: initialApp_fields)
  have t0: "totalOf papa ?init = 0" using pe a0(2) by (rule total_of_empty_text)
  have r: "react papa (FetchResolved body) ?init = ?a" using a0(1) filled by simp
  have st: "run papa (mount papa w1) [FetchResolved body] = settle papa ?s"
    by (simp add: run_def step_def m r del: react.simps)
  have 1: "lastDeps ?s = Some (depsOf papa ?init)" by simp
  have 2: "depIndustry (depsOf papa ?init) = selectedIndustry (ui ?s)" by (simp add: depsOf_def)
  have 3: "depIndex (depsOf papa ?init) = currentIndex (ui ?s)" by (simp add: depsOf_def)
  have 4: "depTotal (depsOf papa ?init) \<noteq> totalOf papa (ui ?s)" using pos t0 by (simp add: depsOf_def)
  have 5: "\<not> initializedRef (ui ?s)" using a0(3) by simp
  have 6: "0 < totalOf papa (ui ?s)" using pos by simp
  have "ui (settle papa ?s) = ui (commit papa ?s)" using 1 2 3 4 5 6 by (rule settle_hydrate)
  also have "\<dots> = (ui ?s)\<lparr>initializedRef := True, hasInitializedRef := True,
      currentIndex := getStoredIndex (totalOf papa (ui ?s)) (getItem (env ?s) storedIndex)\<rparr>"
    using 1 2 3 4 5 6 by (rule commit_hydrate)
  finally show ?thesis by (simp add: st)
qed

lemma reload_restores:
  assumes pe: "fst (parseBusinesses papa []) = []" and c: "consistent papa w0 s"
    and hyd: "hasInitializedRef (ui s)" and fits: "totalOf papa (ui s) < overflowBound"
  shows "currentIndex (ui (run papa (mount papa (env s)) [FetchResolved (csvText (ui s))]))
           = currentIndex (ui s)"
    and "selectedIndustry (ui (run papa (mount papa (env s)) [FetchResolved (csvText (ui s))]))
           = selectedIndustry (ui s)"
    and "csvText (ui (run papa (mount papa (env s)) [FetchResolved (csvText (ui s))]))
           = csvText (ui s)"
proof -
  let ?body = "csvText (ui s)"
  let ?a = "(initialApp papa (env s))\<lparr>csvText := ?body, fetchPending := False\<rparr>"
  from c hyd have r: "0 \<le> currentIndex (ui s)" "currentIndex (ui s) < totalOf papa (ui s)"
    and f: "initialIndustry (env s) = selectedIndustry (ui s)"
    and csv: "?body = [] \<or> trim ?body \<noteq> []"
    by (simp_all add: consistent_def Let_def)
  from c hyd fits have g: "getStoredIndex (totalOf papa (ui s)) (getItem (env s) storedIndex)
      = currentIndex (ui s)"
    by (simp add: consistent_def Let_def)
  have filled: "trim ?body \<noteq> []"
  proof
    assume "trim ?body = []"
    with csv have "?body = []" by blast
    with pe have "totalOf papa (ui s) = 0" by (rule total_of_empty_text)
    with r show False by simp
  qed
  have t: "totalOf papa ?a = totalOf papa (ui s)"
    using pe f by (intro totalOf_cong) (simp_all add: initialApp_fields)
  have pos: "0 < totalOf papa ?a" using r t by simp
  have u: "ui (run papa (mount papa (env s)) [FetchResolved ?body]) =
     (initialApp papa (env s))
       \<lparr>csvText := ?body, fetchPending := False, initializedRef := True, hasInitializedRef := True,
        currentIndex := getStoredIndex (totalOf papa ?a) (getItem (env s) storedIndex)\<rparr>"
    using pe filled pos by (rule restart_restores)
  show "currentIndex (ui (run papa (mount papa (env s)) [FetchResolved ?body])) = currentIndex (ui s)"
    by (simp add: u t g)
  show "selectedIndustry (ui (run papa (mount papa (env s)) [FetchResolved ?body]))
           = selectedIndustry (ui s)"
    using pe f by (simp add: u initialApp_fields)
  show "csvText (ui (run papa (mount papa (env s)) [FetchResolved ?body])) = ?body"
    by (simp add: u)
qed

lemma run_append: "run papa s (es @ fs) = run papa (run papa s es) fs"
  by (simp add: run_def)

lemma run_jumpEvents:
  assumes clean: "\<not> dirty papa s"
    and r: "0 \<le> currentIndex (ui s)" "currentIndex (ui s) < totalOf papa (ui s)"
    and k: "0 \<le> k" "k < totalOf papa (ui s)" and fits: "totalOf papa (ui s) < overflowBound"
  shows "currentIndex (ui (run papa s (jumpEvents (k + 1)))) = k"
    and "csvText (ui (run papa s (jumpEvents (k + 1)))) = csvText (ui s)"
    and "selectedIndustry (ui (run papa s (jumpEvents (k + 1)))) = selectedIndustry (ui s)"
    and "hasInitializedRef (ui (run papa s (jumpEvents (k + 1)))) = hasInitializedRef (ui s)"
proof -
  let ?n = "numberToString (k + 1)"
  let ?s1 = "step papa s ClickEntry"
  let ?s2 = "step papa ?s1 (ChangeJumpInput ?n)"
  let ?s3 = "step papa ?s2 SubmitJump"
  have run: "run papa s (jumpEvents (k + 1)) = ?s3" by (simp add: run_def jumpEvents_def)
  have vis: "cardVisible papa (ui s)" using r by (simp add: cardVisible_def currentBusiness_def)
  have u1: "ui ?s1 = react papa ClickEntry (ui s)"
    using clean by (rule step_navigation_ui) (simp add: isNavigation_def)
  have u2: "ui ?s2 = react papa (ChangeJumpInput ?n) (ui ?s1)"
    using step_clean by (rule step_navigation_ui) (simp add: isNavigation_def)
  have u3: "ui ?s3 = react papa SubmitJump (ui ?s2)"
    using step_clean by (rule step_navigation_ui) (simp add: isNavigation_def)
  have a1: "ui ?s1 = (ui s)\<lparr>showJumpInput := True\<rparr>"
    using vis by (cases "showJumpInput (ui s)") (auto simp: u1)
  have vis1: "cardVisible papa ((ui s)\<lparr>showJumpInput := True\<rparr>) = cardVisible papa (ui s)"
    by (simp add: cardVisible_def currentBusiness_def totalOf_def activeRows_def businessesOf_def)
  have a2: "ui ?s2 = (ui s)\<lparr>showJumpInput := True, jumpInput := ?n\<rparr>"
    using vis by (simp add: u2 a1 vis1)
  have vis2: "cardVisible papa ((ui s)\<lparr>showJumpInput := True, jumpInput := ?n\<rparr>)
      = cardVisible papa (ui s)"
    by (simp add: cardVisible_def currentBusiness_def totalOf_def activeRows_def businessesOf_def)
  have t2: "totalOf papa ((ui s)\<lparr>showJumpInput := True, jumpInput := ?n\<rparr>) = totalOf papa (ui s)"
    by (rule totalOf_cong) simp_all
  have "0 < overflowBound" by (simp add: overflowBound_def)
  then have p: "parseInt ?n = Fin (k + 1)"
    using k fits by (intro parseInt_numberToString) linarith+
  have a3: "ui ?s3 = (ui s)\<lparr>showJumpInput := False, jumpInput := [], currentIndex := k\<rparr>"
    using vis k by (simp add: u3 a2 vis2 handleJump_def p t2)
  show "currentIndex (ui (run papa s (jumpEvents (k + 1)))) = k" by (simp add: run a3)
  show "csvText (ui (run papa s (jumpEvents (k + 1)))) = csvText (ui s)" by (simp add: run a3)
  show "selectedIndustry (ui (run papa s (jumpEvents (k + 1)))) = selectedIndustry (ui s)"
    by (simp add: run a3)
  show "hasInitializedRef (ui (run papa s (jumpEvents (k + 1)))) = hasInitializedRef (ui s)"
    by (simp add: run a3)
qed


lemma round_trip_filter:
  assumes "fst (parseBusinesses papa []) = []" and "\<not> storageThrows w"
    and "hasInitializedRef (ui (run papa (mount papa w) es))"
    and "totalOf papa (ui (run papa (mount papa w) es)) < overflowBound"
  shows "(let s = run papa (mount papa w) es;
              r = run papa (mount papa (env s)) [FetchResolved (csvText (ui s))]
          in currentIndex (ui r) = currentIndex (ui s)
             \<and> selectedIndustry (ui r) = selectedIndustry (ui s)
             \<and> currentBusiness papa (ui r) = currentBusiness papa (ui s))
    \<and> (0 \<le> k \<and> k < totalOf papa (ui (run papa (mount papa w) es)) \<longrightarrow>
          (let s = run papa (mount papa w) (es @ jumpEvents (k + 1));
               r = run papa (mount papa (env s)) [FetchResolved (csvText (ui s))]
           in currentIndex (ui s) = k \<and> currentIndex (ui r) = k
              \<and> currentBusiness papa (ui r) = currentBusiness papa (ui s)))"
proof -
  let ?s = "run papa (mount papa w) es"
  have c: "consistent papa w ?s"
    using assms(1) by (rule consistent_run) (rule consistent_mount [OF assms(1,2)])
  have general: "currentIndex (ui (run papa (mount papa (env t)) [FetchResolved (csvText (ui t))]))
        = currentIndex (ui t)
      \<and> selectedIndustry (ui (run papa (mount papa (env t)) [FetchResolved (csvText (ui t))]))
        = selectedIndustry (ui t)
      \<and> currentBusiness papa (ui (run papa (mount papa (env t)) [FetchResolved (csvText (ui t))]))
        = currentBusiness papa (ui t)"
    if "consistent papa w t" and "hasInitializedRef (ui t)" and "totalOf papa (ui t) < overflowBound"
    for t
  proof -
    note e = reload_restores [OF assms(1) that]
    have "currentBusiness papa (ui (run papa (mount papa (env t)) [FetchResolved (csvText (ui t))]))
        = currentBusiness papa (ui t)"
      using e(3) e(2) e(1) by (rule currentBusiness_cong)
    with e(1,2) show ?thesis by simp
  qed
  have first: "let s = ?s; r = run papa (mount papa (env s)) [FetchResolved (csvText (ui s))]
          in currentIndex (ui r) = currentIndex (ui s)
             \<and> selectedIndustry (ui r) = selectedIndustry (ui s)
             \<and> currentBusiness papa (ui r) = currentBusiness papa (ui s)"
    using general [OF c assms(3,4)] by (simp add: Let_def)
  have second: "0 \<le> k \<and> k < totalOf papa (ui ?s) \<longrightarrow>
          (let s = run papa (mount papa w) (es @ jumpEvents (k + 1));
               r = run papa (mount papa (env s)) [FetchResolved (csvText (ui s))]
           in currentIndex (ui s) = k \<and> currentIndex (ui r) = k
              \<and> currentBusiness papa (ui r) = currentBusiness papa (ui s))"
  proof
    assume k: "0 \<le> k \<and> k < totalOf papa (ui ?s)"
    let ?j = "run papa ?s (jumpEvents (k + 1))"
    have clean: "\<not> dirty papa ?s" using c by (simp add: consistent_def Let_def)
    have r: "0 \<le> currentIndex (ui ?s)" "currentIndex (ui ?s) < totalOf papa (ui ?s)"
      using c assms(3) by (simp_all add: consistent_def Let_def)
    have j: "currentIndex (ui ?j) = k" "csvText (ui ?j) = csvText (ui ?s)"
      "selectedIndustry (ui ?j) = selectedIndustry (ui ?s)"
      "hasInitializedRef (ui ?j) = hasInitializedRef (ui ?s)"
      using run_jumpEvents [OF clean r _ _ assms(4), of k] k by simp_all
    have tj: "totalOf papa (ui ?j) = totalOf papa (ui ?s)" using j(2,3) by (rule totalOf_cong)
    have cj: "consistent papa w ?j" using assms(1) c by (rule consistent_run)
    have "currentIndex (ui (run papa (mount papa (env ?j)) [FetchResolved (csvText (ui ?j))]))
        = currentIndex (ui ?j)
      \<and> selectedIndustry (ui (run papa (mount papa (env ?j)) [FetchResolved (csvText (ui ?j))]))
        = selectedIndustry (ui ?j)
      \<and> currentBusiness papa (ui (run papa (mount papa (env ?j)) [FetchResolved (csvText (ui ?j))]))
        = currentBusiness papa (ui ?j)"
      using cj by (rule general) (simp_all add: j tj assms(3,4))
    then show "let s = run papa (mount papa w) (es @ jumpEvents (k + 1));
               r = run papa (mount papa (env s)) [FetchResolved (csvText (ui s))]
           in currentIndex (ui s) = k \<and> currentIndex (ui r) = k
              \<and> currentBusiness papa (ui r) = currentBusiness papa (ui s)"
      by (simp add: Let_def run_append j(1))
  qed
  from first second show ?thesis by (intro conjI) simp_all
qed


section \<open>The dashboard without the filter: commits, guard and navigation\<close>

lemma persistEffectP_ui: "uiP (persistEffectP s) = uiP s"
  by (simp add: persistEffectP_def Let_def)

lemma restoreEffectP_cells:
  "csvTextP (uiP (fst (restoreEffectP papa s))) = csvTextP (uiP s)"
  by (simp add: restoreEffectP_def Let_def)

lemma commitP_lastDeps: "lastDepsP (commitP papa s) = Some (depsOfP papa (uiP s))"
  by (simp add: commitP_def Let_def)

lemma commitP_csvText: "csvTextP (uiP (commitP papa s)) = csvTextP (uiP s)"
  by (simp add: commitP_def Let_def persistEffectP_ui restoreEffectP_cells)

lemma commitP_total: "totalP papa (uiP (commitP papa s)) = totalP papa (uiP s)"
  by (simp add: totalP_def commitP_csvText)

lemma commitP_index_only:
  "lastDepsP s = Some p \<Longrightarrow> depTotalP p = totalP papa (uiP s)
   \<Longrightarrow> currentIndexP (uiP (commitP papa s)) = currentIndexP (uiP s)"
  by (simp add: commitP_def Let_def depsOfP_def)

lemma settleMeasureP_commit_le: "settleMeasureP papa (commitP papa s) \<le> 1"
  by (simp add: settleMeasureP_def commitP_lastDeps commitP_total depsOfP_def)

lemma settleMeasureP_decreases:
  assumes "dirtyP papa s"
  shows "settleMeasureP papa (commitP papa s) < settleMeasureP papa s"
proof (cases "lastDepsP s")
  case None
  then have "settleMeasureP papa s = 3" by (simp add: settleMeasureP_def)
  with settleMeasureP_commit_le [of papa s] show ?thesis by simp
next
  case (Some p)
  show ?thesis
  proof (cases "depTotalP p = totalP papa (uiP s)")
    case False
    with Some have "settleMeasureP papa s = 2" by (simp add: settleMeasureP_def)
    with settleMeasureP_commit_le [of papa s] show ?thesis by simp
  next
    case True
    have "depIndexP p \<noteq> currentIndexP (uiP s)"
    proof
      assume "depIndexP p = currentIndexP (uiP s)"
      with True have "p = depsOfP papa (uiP s)" by (cases p) (simp add: depsOfP_def)
      with Some assms show False by (simp add: dirtyP_def)
    qed
    with Some True have m: "settleMeasureP papa s = 1" by (simp add: settleMeasureP_def)
    have "currentIndexP (uiP (commitP papa s)) = currentIndexP (uiP s)"
      using Some True by (rule commitP_index_only)
    then have "settleMeasureP papa (commitP papa s) = 0"
      by (simp add: settleMeasureP_def commitP_lastDeps commitP_total depsOfP_def)
    with m show ?thesis by simp
  qed
qed

termination settleP
  by (relation "measure (\<lambda>(papa, s). settleMeasureP papa s)")
    (simp_all add: settleMeasureP_decreases)

declare settleP.simps [simp del]

lemma settleP_clean: "\<not> dirtyP papa s \<Longrightarrow> settleP papa s = s"
  by (subst settleP.simps) simp

lemma settleP_dirty: "dirtyP papa s \<Longrightarrow> settleP papa s = settleP papa (commitP papa s)"
  by (subst settleP.simps) simp

lemma settleP_preserves:
  "(\<And>t. P t \<Longrightarrow> P (commitP papa t)) \<Longrightarrow> P s \<Longrightarrow> P (settleP papa s)"
proof (induction papa s rule: settleP.induct)
  case (1 papa s)
  show ?case
  proof (cases "dirtyP papa s")
    case True
    have "P (commitP papa s)" using "1.prems" by blast
    with True "1.IH" "1.prems"(1) have "P (settleP papa (commitP papa s))" by blast
    with True show ?thesis by (simp add: settleP_dirty)
  next
    case False
    with "1.prems"(2) show ?thesis by (simp add: settleP_clean)
  qed
qed

lemma guardedP_persist: "guardedP w0 s \<Longrightarrow> guardedP w0 (persistEffectP s)"
  by (auto simp: guardedP_def persistEffectP_def Let_def wfh_after)

lemma guardedP_restore: "guardedP w0 s \<Longrightarrow> guardedP w0 (fst (restoreEffectP papa s))"
  by (auto simp: guardedP_def restoreEffectP_def Let_def wfh_before wfh_quiet wfh_single)

lemma guardedP_finish:
  "guardedP w0 s \<Longrightarrow> guardedP w0 (s\<lparr>uiP := (uiP s)\<lparr>currentIndexP := i\<rparr>, lastDepsP := d\<rparr>)"
  by (simp add: guardedP_def)

lemma guardedP_commit: "guardedP w0 s \<Longrightarrow> guardedP w0 (commitP papa s)"
  by (simp add: commitP_def Let_def guardedP_finish guardedP_restore guardedP_persist)

lemma guardedP_settle: "guardedP w0 s \<Longrightarrow> guardedP w0 (settleP papa s)"
  by (rule settleP_preserves) (simp_all add: guardedP_commit)

lemma reactP_refs:
  "initializedRefP (reactP papa e b) = initializedRefP b"
  "hasInitializedRefP (reactP papa e b) = hasInitializedRefP b"
  by (cases e; simp add: previousP_def nextP_def commitIndex_def Let_def split: number.split)+

lemma guardedP_step: "guardedP w0 s \<Longrightarrow> guardedP w0 (stepP papa s e)"
proof -
  assume "guardedP w0 s"
  then have "guardedP w0 (s\<lparr>uiP := reactP papa e (uiP s)\<rparr>)"
    by (simp add: guardedP_def reactP_refs)
  then show ?thesis unfolding stepP_def by (rule guardedP_settle)
qed

lemma guardedP_run: "guardedP w0 s \<Longrightarrow> guardedP w0 (runP papa s es)"
  unfolding runP_def by (induction es arbitrary: s) (simp_all add: guardedP_step)

lemma guardedP_mount: "guardedP w (mountP papa w)"
  unfolding mountP_def
  by (rule guardedP_settle) (simp add: guardedP_def initialPlain_def Let_def writesFollowHydration_def)

lemma settleP_not_dirty: "\<not> dirtyP papa (settleP papa s)"
proof (induction papa s rule: settleP.induct)
  case (1 papa s)
  show ?case
  proof (cases "dirtyP papa s")
    case True
    with 1 show ?thesis by (simp add: settleP_dirty)
  next
    case False
    then show ?thesis by (simp add: settleP_clean)
  qed
qed

lemma dirtyP_iff:
  "dirtyP papa s \<longleftrightarrow>
     (case lastDepsP s of
        None \<Rightarrow> True
      | Some p \<Rightarrow> depIndexP p \<noteq> currentIndexP (uiP s) \<or> depTotalP p \<noteq> totalP papa (uiP s))"
proof (cases "lastDepsP s")
  case None
  then show ?thesis by (simp add: dirtyP_def)
next
  case (Some p)
  have "p = depsOfP papa (uiP s) \<longleftrightarrow>
        depIndexP p = currentIndexP (uiP s) \<and> depTotalP p = totalP papa (uiP s)"
    by (cases p) (auto simp: depsOfP_def)
  with Some show ?thesis by (auto simp: dirtyP_def)
qed

lemma commitP_index_dirty:
  assumes "lastDepsP s = Some p" and "depTotalP p = totalP papa (uiP s)"
    and "depIndexP p \<noteq> currentIndexP (uiP s)"
  shows "commitP papa s = (persistEffectP s)\<lparr>lastDepsP := Some (depsOfP papa (uiP s))\<rparr>"
  using assms by (simp add: commitP_def Let_def depsOfP_def persistEffectP_ui)

lemma settleP_index_dirty:
  assumes "lastDepsP s = Some p" and "depTotalP p = totalP papa (uiP s)"
    and "depIndexP p \<noteq> currentIndexP (uiP s)"
  shows "settleP papa s = (persistEffectP s)\<lparr>lastDepsP := Some (depsOfP papa (uiP s))\<rparr>"
proof -
  have d: "dirtyP papa s" using assms by (simp add: dirtyP_iff)
  have c: "commitP papa s = (persistEffectP s)\<lparr>lastDepsP := Some (depsOfP papa (uiP s))\<rparr>"
    using assms by (rule commitP_index_dirty)
  have "\<not> dirtyP papa ((persistEffectP s)\<lparr>lastDepsP := Some (depsOfP papa (uiP s))\<rparr>)"
    by (simp add: dirtyP_def persistEffectP_ui)
  with d c show ?thesis by (simp add: settleP_dirty settleP_clean)
qed

lemma cleanP_lastDeps: "\<not> dirtyP papa s \<Longrightarrow> lastDepsP s = Some (depsOfP papa (uiP s))"
  by (simp add: dirtyP_def)

lemma settleP_same_deps:
  assumes "\<not> dirtyP papa s" and "depsOfP papa b' = depsOfP papa (uiP s)"
  shows "settleP papa (s\<lparr>uiP := b'\<rparr>) = s\<lparr>uiP := b'\<rparr>"
proof -
  have "\<not> dirtyP papa (s\<lparr>uiP := b'\<rparr>)" using assms by (simp add: dirtyP_def)
  then show ?thesis by (rule settleP_clean)
qed

lemma settleP_new_index:
  assumes "\<not> dirtyP papa s" and "csvTextP b' = csvTextP (uiP s)"
    and "currentIndexP b' \<noteq> currentIndexP (uiP s)"
  shows "settleP papa (s\<lparr>uiP := b'\<rparr>) =
           (persistEffectP (s\<lparr>uiP := b'\<rparr>))\<lparr>lastDepsP := Some (depsOfP papa b')\<rparr>"
proof -
  let ?s = "s\<lparr>uiP := b'\<rparr>"
  let ?p = "depsOfP papa (uiP s)"
  have t: "totalP papa b' = totalP papa (uiP s)" using assms(2) by (simp add: totalP_def)
  have "lastDepsP ?s = Some ?p" using assms(1) by (simp add: cleanP_lastDeps)
  moreover have "depTotalP ?p = totalP papa (uiP ?s)" using t by (simp add: depsOfP_def)
  moreover have "depIndexP ?p \<noteq> currentIndexP (uiP ?s)" using assms(3) by (simp add: depsOfP_def)
  ultimately have "settleP papa ?s = (persistEffectP ?s)\<lparr>lastDepsP := Some (depsOfP papa (uiP ?s))\<rparr>"
    by (rule settleP_index_dirty)
  then show ?thesis by simp
qed

lemma reactP_navigation:
  assumes "isNavigationP e"
  shows "csvTextP (reactP papa e b) = csvTextP b"
    and "fetchPendingP (reactP papa e b) = fetchPendingP b"
  using assms
  by (cases e; simp add: isNavigationP_def previousP_def nextP_def commitIndex_def Let_def
      split: number.split)+

lemma reactP_navigation_total:
  "isNavigationP e \<Longrightarrow> totalP papa (reactP papa e b) = totalP papa b"
  by (simp add: totalP_def reactP_navigation)

lemma stepP_navigation_ui:
  assumes "\<not> dirtyP papa s" and "isNavigationP e"
  shows "uiP (stepP papa s e) = reactP papa e (uiP s)"
proof (cases "currentIndexP (reactP papa e (uiP s)) = currentIndexP (uiP s)")
  case True
  have "depsOfP papa (reactP papa e (uiP s)) = depsOfP papa (uiP s)"
    using True assms(2) by (simp add: depsOfP_def reactP_navigation_total)
  with assms(1) show ?thesis by (simp add: stepP_def settleP_same_deps)
next
  case False
  with assms show ?thesis
    by (simp add: stepP_def settleP_new_index reactP_navigation persistEffectP_ui)
qed

lemma stepP_clean: "\<not> dirtyP papa (stepP papa s e)"
  by (simp add: stepP_def settleP_not_dirty)

lemma stepP_identity:
  assumes "\<not> dirtyP papa s" and "reactP papa e (uiP s) = uiP s"
  shows "stepP papa s e = s"
  using assms by (simp add: stepP_def settleP_clean)

lemma totalP_inputs:
  "totalP papa (b\<lparr>isEditingIndex := x\<rparr>) = totalP papa b"
  "totalP papa (b\<lparr>currentIndexP := i\<rparr>) = totalP papa b"
  by (simp_all add: totalP_def)

lemma reactP_navigation_range:
  assumes "isNavigationP e" and "0 \<le> currentIndexP b" and "currentIndexP b < totalP papa b"
  shows "0 \<le> currentIndexP (reactP papa e b) \<and> currentIndexP (reactP papa e b) < totalP papa b"
  using assms
  by (cases e)
    (auto simp: isNavigationP_def previousP_def nextP_def commitIndex_def Let_def
      clamp_def showNavigation_def totalP_inputs split: number.split)

lemma runP_navigation:
  assumes "list_all isNavigationP es" and "\<not> dirtyP papa s"
    and "0 \<le> currentIndexP (uiP s)" and "currentIndexP (uiP s) < totalP papa (uiP s)"
  shows "0 \<le> currentIndexP (uiP (runP papa s es))
       \<and> currentIndexP (uiP (runP papa s es)) < totalP papa (uiP s)
       \<and> totalP papa (uiP (runP papa s es)) = totalP papa (uiP s)"
  using assms
proof (induction es arbitrary: s)
  case Nil
  then show ?case by (simp add: runP_def)
next
  case (Cons e es)
  let ?s = "stepP papa s e"
  from Cons.prems have e: "isNavigationP e" and es: "list_all isNavigationP es" by simp_all
  have u: "uiP ?s = reactP papa e (uiP s)" using Cons.prems(2) e by (rule stepP_navigation_ui)
  have t: "totalP papa (uiP ?s) = totalP papa (uiP s)" using e by (simp add: u reactP_navigation_total)
  have r: "0 \<le> currentIndexP (uiP ?s) \<and> currentIndexP (uiP ?s) < totalP papa (uiP ?s)"
    using reactP_navigation_range [OF e Cons.prems(3,4)] e
    by (simp add: u reactP_navigation_total)
  have "0 \<le> currentIndexP (uiP (runP papa ?s es))
       \<and> currentIndexP (uiP (runP papa ?s es)) < totalP papa (uiP ?s)
       \<and> totalP papa (uiP (runP papa ?s es)) = totalP papa (uiP ?s)"
    using es stepP_clean r by (intro Cons.IH) simp_all
  then show ?case by (simp add: runP_def t)
qed

lemma previous_next_plain:
  assumes "\<not> dirtyP papa s"
    and "0 \<le> currentIndexP (uiP s)" and "currentIndexP (uiP s) < totalP papa (uiP s)"
  shows "currentIndexP (uiP (stepP papa s ClickPreviousP)) = max 0 (currentIndexP (uiP s) - 1)"
    and "currentIndexP (uiP (stepP papa s ClickNextP))
        = min (totalP papa (uiP s) - 1) (currentIndexP (uiP s) + 1)"
    and "currentIndexP (uiP s) = 0 \<longrightarrow> stepP papa s ClickPreviousP = s"
    and "currentIndexP (uiP s) = totalP papa (uiP s) - 1 \<longrightarrow> stepP papa s ClickNextP = s"
proof -
  show "currentIndexP (uiP (stepP papa s ClickPreviousP)) = max 0 (currentIndexP (uiP s) - 1)"
    using assms
    by (simp add: stepP_navigation_ui isNavigationP_def previousP_def clamp_def showNavigation_def)
  show "currentIndexP (uiP (stepP papa s ClickNextP))
        = min (totalP papa (uiP s) - 1) (currentIndexP (uiP s) + 1)"
    using assms
    by (simp add: stepP_navigation_ui isNavigationP_def nextP_def clamp_def showNavigation_def)
  show "currentIndexP (uiP s) = 0 \<longrightarrow> stepP papa s ClickPreviousP = s"
    using assms(1) by (simp add: stepP_identity previousP_def)
  show "currentIndexP (uiP s) = totalP papa (uiP s) - 1 \<longrightarrow> stepP papa s ClickNextP = s"
    using assms(1) by (simp add: stepP_identity nextP_def)
qed


section \<open>The dashboard without the filter: restoring the position\<close>

lemma totalP_of_empty_text:
  "fst (parseBusinesses papa []) = [] \<Longrightarrow> csvTextP b = [] \<Longrightarrow> totalP papa b = 0"
  by (simp add: totalP_def)

lemma initialPlain_fields:
  assumes "fst (parseBusinesses papa []) = []"
  shows "initialPlain papa w =
     \<lparr> csvTextP = [], fetchPendingP = True, currentIndexP = 0, isEditingIndex = False,
       inputIndex = [], initializedRefP = False, hasInitializedRefP = False \<rparr>"
  using assms by (simp add: initialPlain_def Let_def totalP_of_empty_text getStoredIndex_def)

lemma commitP_quiet:
  assumes "\<not> initializedRefP (uiP s)" and "\<not> hasInitializedRefP (uiP s)"
    and "totalP papa (uiP s) = 0"
  shows "commitP papa s = s\<lparr>lastDepsP := Some (depsOfP papa (uiP s))\<rparr>"
  using assms by (simp add: commitP_def Let_def persistEffectP_def restoreEffectP_def)

lemma mountP_value:
  assumes "fst (parseBusinesses papa []) = []"
  shows "mountP papa w =
     \<lparr> uiP = initialPlain papa w, lastDepsP = Some (depsOfP papa (initialPlain papa w)),
       envP = w, logP = [] \<rparr>"
proof -
  let ?s = "\<lparr> uiP = initialPlain papa w, lastDepsP = None, envP = w, logP = [] \<rparr>"
  have t: "totalP papa (uiP ?s) = 0"
    using assms by (simp add: totalP_of_empty_text initialPlain_fields)
  have r: "\<not> initializedRefP (uiP ?s)" "\<not> hasInitializedRefP (uiP ?s)"
    using assms by (simp_all add: initialPlain_fields)
  have c: "commitP papa ?s = ?s\<lparr>lastDepsP := Some (depsOfP papa (uiP ?s))\<rparr>"
    using r t by (rule commitP_quiet)
  have d: "dirtyP papa ?s" by (simp add: dirtyP_def)
  have "\<not> dirtyP papa (?s\<lparr>lastDepsP := Some (depsOfP papa (uiP ?s))\<rparr>)" by (simp add: dirtyP_def)
  with d c have "settleP papa ?s = ?s\<lparr>lastDepsP := Some (depsOfP papa (uiP ?s))\<rparr>"
    by (simp add: settleP_dirty settleP_clean)
  then show ?thesis by (simp add: mountP_def)
qed

lemma consistentP_mount:
  assumes "fst (parseBusinesses papa []) = []" and "\<not> storageThrows w"
  shows "consistentP papa w (mountP papa w)"
  using assms
  by (simp add: mountP_value consistentP_def Let_def dirtyP_def initialPlain_fields
      totalP_of_empty_text)

lemma commitP_hydrate:
  assumes "lastDepsP s = Some p" and "depIndexP p = currentIndexP (uiP s)"
    and "depTotalP p \<noteq> totalP papa (uiP s)"
    and "\<not> initializedRefP (uiP s)" and "0 < totalP papa (uiP s)"
  shows "uiP (commitP papa s) =
           (uiP s)\<lparr>initializedRefP := True, hasInitializedRefP := True,
                   currentIndexP := getStoredIndex (totalP papa (uiP s)) (getItem (envP s) storedIndex)\<rparr>"
    and "envP (commitP papa s) = envP s"
  using assms
  by (simp_all add: commitP_def Let_def depsOfP_def restoreEffectP_def)

lemma settleP_hydrate:
  assumes "lastDepsP s = Some p" and "depIndexP p = currentIndexP (uiP s)"
    and "depTotalP p \<noteq> totalP papa (uiP s)"
    and "\<not> initializedRefP (uiP s)" and "0 < totalP papa (uiP s)"
  shows "uiP (settleP papa s) = uiP (commitP papa s)"
    and "envP (settleP papa s) =
           (if currentIndexP (uiP (commitP papa s)) = currentIndexP (uiP s) then envP s
            else envP (persistEffectP (commitP papa s)))"
proof -
  let ?c = "commitP papa s"
  have d: "dirtyP papa s" using assms(1,3) by (simp add: dirtyP_iff)
  have s: "settleP papa s = settleP papa ?c" using d by (rule settleP_dirty)
  have ld: "lastDepsP ?c = Some (depsOfP papa (uiP s))" by (rule commitP_lastDeps)
  have t: "totalP papa (uiP ?c) = totalP papa (uiP s)" by (rule commitP_total)
  have e: "envP ?c = envP s" using assms by (rule commitP_hydrate)
  have both: "uiP (settleP papa ?c) = uiP ?c
     \<and> envP (settleP papa ?c) =
           (if currentIndexP (uiP ?c) = currentIndexP (uiP s) then envP s
            else envP (persistEffectP ?c))"
  proof (cases "currentIndexP (uiP ?c) = currentIndexP (uiP s)")
    case True
    then have "\<not> dirtyP papa ?c" by (simp add: dirtyP_iff ld t depsOfP_def)
    then show ?thesis using True by (simp add: settleP_clean e)
  next
    case False
    have "settleP papa ?c = (persistEffectP ?c)\<lparr>lastDepsP := Some (depsOfP papa (uiP ?c))\<rparr>"
      using ld
    proof (rule settleP_index_dirty)
      show "depTotalP (depsOfP papa (uiP s)) = totalP papa (uiP ?c)" by (simp add: t depsOfP_def)
      show "depIndexP (depsOfP papa (uiP s)) \<noteq> currentIndexP (uiP ?c)"
        using False by (simp add: depsOfP_def)
    qed
    then show ?thesis using False by (simp add: persistEffectP_ui)
  qed
  show "uiP (settleP papa s) = uiP (commitP papa s)" using both by (simp add: s)
  show "envP (settleP papa s) =
           (if currentIndexP (uiP (commitP papa s)) = currentIndexP (uiP s) then envP s
            else envP (persistEffectP (commitP papa s)))"
    using both by (simp add: s)
qed

lemma persistEffectP_env:
  assumes "hasInitializedRefP (uiP s)" and "\<not> storageThrows (envP s)"
  shows "storedIndex (envP (persistEffectP s)) = Some (numberToString (currentIndexP (uiP s)))"
    and "\<not> storageThrows (envP (persistEffectP s))"
  using assms by (simp_all add: persistEffectP_def Let_def)

lemma getStoredIndexP_persisted:
  assumes "hasInitializedRefP (uiP s)" and "\<not> storageThrows (envP s)"
    and "0 \<le> currentIndexP (uiP s)" and "currentIndexP (uiP s) < t" and "t < overflowBound"
  shows "getStoredIndex t (getItem (envP (persistEffectP s)) storedIndex) = currentIndexP (uiP s)"
  using persistEffectP_env [OF assms(1,2)] assms(3-5)
  by (simp add: getItem_def getStoredIndex_numeral)

lemma consistentP_after_persist:
  assumes "\<not> dirtyP papa t" and "uiP t = uiP s" and "envP t = envP (persistEffectP s)"
    and "hasInitializedRefP (uiP s)" and "initializedRefP (uiP s)"
    and "\<not> storageThrows (envP s)"
    and "0 \<le> currentIndexP (uiP s)" and "currentIndexP (uiP s) < totalP papa (uiP s)"
    and "csvTextP (uiP s) = [] \<or> trim (csvTextP (uiP s)) \<noteq> []"
    and "fetchPendingP (uiP s) \<longrightarrow> csvTextP (uiP s) = []"
  shows "consistentP papa w0 t"
  using assms
  by (simp add: consistentP_def Let_def persistEffectP_env getStoredIndexP_persisted)

lemma reactP_navigation_unhydrated:
  assumes "isNavigationP e" and "totalP papa b = 0" and "currentIndexP b = 0"
  shows "currentIndexP (reactP papa e b) = 0"
  using assms
  by (cases e) (simp_all add: isNavigationP_def previousP_def nextP_def showNavigation_def)

lemma consistentP_same_deps:
  assumes "consistentP papa w0 s"
    and "csvTextP b' = csvTextP (uiP s)" and "currentIndexP b' = currentIndexP (uiP s)"
    and "initializedRefP b' = initializedRefP (uiP s)"
    and "hasInitializedRefP b' = hasInitializedRefP (uiP s)"
    and "fetchPendingP b' \<longrightarrow> fetchPendingP (uiP s)"
  shows "consistentP papa w0 (settleP papa (s\<lparr>uiP := b'\<rparr>))"
proof -
  have t: "totalP papa b' = totalP papa (uiP s)" using assms(2) by (simp add: totalP_def)
  have d: "depsOfP papa b' = depsOfP papa (uiP s)" using assms(3) t by (simp add: depsOfP_def)
  have clean: "\<not> dirtyP papa s" using assms(1) by (simp add: consistentP_def Let_def)
  then have "settleP papa (s\<lparr>uiP := b'\<rparr>) = s\<lparr>uiP := b'\<rparr>" using d by (rule settleP_same_deps)
  moreover have "consistentP papa w0 (s\<lparr>uiP := b'\<rparr>)"
    using assms t d by (simp add: consistentP_def Let_def dirtyP_def)
  ultimately show ?thesis by simp
qed

lemma consistentP_step_navigation:
  assumes "consistentP papa w0 s" and "isNavigationP e"
  shows "consistentP papa w0 (stepP papa s e)"
proof (cases "currentIndexP (reactP papa e (uiP s)) = currentIndexP (uiP s)")
  case True
  show ?thesis unfolding stepP_def using assms(1)
  proof (rule consistentP_same_deps)
    show "currentIndexP (reactP papa e (uiP s)) = currentIndexP (uiP s)" by (rule True)
  qed (simp_all add: reactP_navigation reactP_refs assms(2))
next
  case False
  let ?b = "reactP papa e (uiP s)"
  let ?s = "s\<lparr>uiP := ?b\<rparr>"
  have clean: "\<not> dirtyP papa s" using assms(1) by (simp add: consistentP_def Let_def)
  have cells: "csvTextP ?b = csvTextP (uiP s)" "fetchPendingP ?b = fetchPendingP (uiP s)"
    using assms(2) by (simp_all add: reactP_navigation)
  have t: "totalP papa ?b = totalP papa (uiP s)" using assms(2) by (rule reactP_navigation_total)
  have hyd: "hasInitializedRefP (uiP s)"
  proof (rule ccontr)
    assume "\<not> hasInitializedRefP (uiP s)"
    with assms(1) have "totalP papa (uiP s) = 0" "currentIndexP (uiP s) = 0"
      by (simp_all add: consistentP_def Let_def)
    with assms(2) have "currentIndexP ?b = 0" by (intro reactP_navigation_unhydrated)
    with \<open>currentIndexP (uiP s) = 0\<close> False show False by simp
  qed
  with assms(1) have r: "0 \<le> currentIndexP (uiP s)" "currentIndexP (uiP s) < totalP papa (uiP s)"
    and i: "initializedRefP (uiP s)" and nt: "\<not> storageThrows (envP s)"
    and csv: "csvTextP (uiP s) = [] \<or> trim (csvTextP (uiP s)) \<noteq> []"
    and fp: "fetchPendingP (uiP s) \<longrightarrow> csvTextP (uiP s) = []"
    by (simp_all add: consistentP_def Let_def)
  have r': "0 \<le> currentIndexP ?b \<and> currentIndexP ?b < totalP papa (uiP s)"
    using assms(2) r by (rule reactP_navigation_range)
  have st: "stepP papa s e = (persistEffectP ?s)\<lparr>lastDepsP := Some (depsOfP papa ?b)\<rparr>"
    unfolding stepP_def using clean cells(1) False by (rule settleP_new_index)
  show ?thesis
  proof (rule consistentP_after_persist [where s = ?s])
    show "\<not> dirtyP papa (stepP papa s e)" by (rule stepP_clean)
    show "uiP (stepP papa s e) = uiP ?s" by (simp add: st persistEffectP_ui)
    show "envP (stepP papa s e) = envP (persistEffectP ?s)" by (simp add: st)
    show "hasInitializedRefP (uiP ?s)" using hyd by (simp add: reactP_refs)
    show "initializedRefP (uiP ?s)" using i by (simp add: reactP_refs)
    show "\<not> storageThrows (envP ?s)" using nt by simp
    show "0 \<le> currentIndexP (uiP ?s)" using r' by simp
    show "currentIndexP (uiP ?s) < totalP papa (uiP ?s)" using r' t by simp
    show "csvTextP (uiP ?s) = [] \<or> trim (csvTextP (uiP ?s)) \<noteq> []" using csv cells by simp
    show "fetchPendingP (uiP ?s) \<longrightarrow> csvTextP (uiP ?s) = []" using fp cells by simp
  qed
qed

lemma consistentP_step_fetch:
  assumes pe: "fst (parseBusinesses papa []) = []" and c: "consistentP papa w0 s"
  shows "consistentP papa w0 (stepP papa s (FetchResolvedP body))"
proof -
  have clean: "\<not> dirtyP papa s" and nt: "\<not> storageThrows (envP s)"
    and refs: "initializedRefP (uiP s) = hasInitializedRefP (uiP s)"
    using c by (simp_all add: consistentP_def Let_def)
  show ?thesis
  proof (cases "fetchPendingP (uiP s)")
    case False
    then have "reactP papa (FetchResolvedP body) (uiP s) = uiP s" by simp
    with clean have "stepP papa s (FetchResolvedP body) = s" by (rule stepP_identity)
    with c show ?thesis by simp
  next
    case True
    with c have empty: "csvTextP (uiP s) = []" by (simp add: consistentP_def Let_def)
    with pe have t0: "totalP papa (uiP s) = 0" by (rule totalP_of_empty_text)
    have unh: "\<not> hasInitializedRefP (uiP s)"
    proof
      assume "hasInitializedRefP (uiP s)"
      with c have "0 \<le> currentIndexP (uiP s) \<and> currentIndexP (uiP s) < totalP papa (uiP s)"
        by (simp add: consistentP_def Let_def)
      with t0 show False by simp
    qed
    with c have i0: "currentIndexP (uiP s) = 0" and w: "envP s = w0"
      by (simp_all add: consistentP_def Let_def)
    show ?thesis
    proof (cases "trim body = []")
      case blank: True
      show ?thesis unfolding stepP_def using c
      proof (rule consistentP_same_deps)
      qed (simp_all add: True blank)
    next
      case filled: False
      let ?b = "(uiP s)\<lparr>csvTextP := body, fetchPendingP := False\<rparr>"
      let ?s = "s\<lparr>uiP := ?b\<rparr>"
      let ?t = "totalP papa ?b"
      let ?k = "getStoredIndex ?t (getItem (envP s) storedIndex)"
      have st: "stepP papa s (FetchResolvedP body) = settleP papa ?s"
        using True filled by (simp add: stepP_def)
      show ?thesis
      proof (cases "?t = 0")
        case none: True
        have "depsOfP papa ?b = depsOfP papa (uiP s)" using none t0 by (simp add: depsOfP_def)
        with clean have "settleP papa ?s = ?s" by (rule settleP_same_deps)
        moreover have "consistentP papa w0 ?s"
          using clean nt refs unh i0 w none t0 filled
          by (simp add: consistentP_def Let_def dirtyP_def depsOfP_def)
        ultimately show ?thesis by (simp add: st)
      next
        case some: False
        then have pos: "0 < ?t" by (simp add: totalP_def)
        let ?c = "commitP papa ?s"
        have 1: "lastDepsP ?s = Some (depsOfP papa (uiP s))" using clean by (simp add: cleanP_lastDeps)
        have 3: "depIndexP (depsOfP papa (uiP s)) = currentIndexP (uiP ?s)" by (simp add: depsOfP_def)
        have 4: "depTotalP (depsOfP papa (uiP s)) \<noteq> totalP papa (uiP ?s)"
          using some t0 by (simp add: depsOfP_def)
        have 5: "\<not> initializedRefP (uiP ?s)" using unh refs by simp
        have 6: "0 < totalP papa (uiP ?s)" using pos by simp
        have cu: "uiP ?c = ?b\<lparr>initializedRefP := True, hasInitializedRefP := True,
            currentIndexP := ?k\<rparr>"
          using commitP_hydrate(1) [OF 1 3 4 5 6] by simp
        have ce: "envP ?c = envP s" using commitP_hydrate(2) [OF 1 3 4 5 6] by simp
        have u: "uiP (settleP papa ?s) = uiP ?c" using 1 3 4 5 6 by (rule settleP_hydrate)
        have e: "envP (settleP papa ?s) =
              (if currentIndexP (uiP ?c) = currentIndexP (uiP ?s) then envP ?s
               else envP (persistEffectP ?c))"
          using 1 3 4 5 6 by (rule settleP_hydrate)
        have tc: "totalP papa (uiP ?c) = ?t" by (simp add: commitP_total)
        have k: "0 \<le> ?k \<and> ?k < ?t" using pos by (rule getStoredIndex_range)
        have ki: "currentIndexP (uiP ?c) = ?k" by (simp add: cu)
        show ?thesis
        proof (cases "?k = 0")
          case True
          then have "envP (settleP papa ?s) = envP s" using e i0 ki by simp
          then show ?thesis
            unfolding st consistentP_def Let_def
            using settleP_not_dirty [of papa ?s] nt w filled pos True
            by (simp add: u tc) (simp add: cu)
        next
          case False
          show ?thesis unfolding st
          proof (rule consistentP_after_persist [where s = ?c])
            show "\<not> dirtyP papa (settleP papa ?s)" by (rule settleP_not_dirty)
            show "uiP (settleP papa ?s) = uiP ?c" by (rule u)
            show "envP (settleP papa ?s) = envP (persistEffectP ?c)" using e False i0 ki by simp
            show "hasInitializedRefP (uiP ?c)" "initializedRefP (uiP ?c)" by (simp_all add: cu)
            show "\<not> storageThrows (envP ?c)" using nt by (simp add: ce)
            show "0 \<le> currentIndexP (uiP ?c)" using k ki by simp
            show "currentIndexP (uiP ?c) < totalP papa (uiP ?c)" using k ki tc by simp
            show "csvTextP (uiP ?c) = [] \<or> trim (csvTextP (uiP ?c)) \<noteq> []"
              using filled by (simp add: cu)
            show "fetchPendingP (uiP ?c) \<longrightarrow> csvTextP (uiP ?c) = []" by (simp add: cu)
          qed
        qed
      qed
    qed
  qed
qed

lemma consistentP_step:
  assumes "fst (parseBusinesses papa []) = []" and "consistentP papa w0 s"
  shows "consistentP papa w0 (stepP papa s e)"
proof (cases "isNavigationP e")
  case True
  with assms(2) show ?thesis by (rule consistentP_step_navigation)
next
  case False
  then obtain body where "e = FetchResolvedP body"
    by (cases e) (simp_all add: isNavigationP_def)
  with assms show ?thesis by (simp add: consistentP_step_fetch)
qed

lemma consistentP_run:
  assumes "fst (parseBusinesses papa []) = []" and "consistentP papa w0 s"
  shows "consistentP papa w0 (runP papa s es)"
  using assms(2) unfolding runP_def
  by (induction es arbitrary: s) (simp_all add: consistentP_step assms(1))

lemma restartP_restores:
  assumes pe: "fst (parseBusinesses papa []) = []" and filled: "trim body \<noteq> []"
    and pos: "0 < totalP papa ((initialPlain papa w1)\<lparr>csvTextP := body, fetchPendingP := False\<rparr>)"
  shows "uiP (runP papa (mountP papa w1) [FetchResolvedP body]) =
     (initialPlain papa w1)
       \<lparr>csvTextP := body, fetchPendingP := False, initializedRefP := True,
        hasInitializedRefP := True,
        currentIndexP :=
          getStoredIndex
            (totalP papa ((initialPlain papa w1)\<lparr>csvTextP := body, fetchPendingP := False\<rparr>))
            (getItem w1 storedIndex)\<rparr>"
proof -
  let ?init = "initialPlain papa w1"
  let ?m = "\<lparr> uiP = ?init, lastDepsP = Some (depsOfP papa ?init), envP = w1, logP = [] \<rparr>"
  let ?b = "?init\<lparr>csvTextP := body, fetchPendingP := False\<rparr>"
  let ?s = "?m\<lparr>uiP := ?b\<rparr>"
  have m: "mountP papa w1 = ?m" using pe by (rule mountP_value)
  have a0: "fetchPendingP ?init" "csvTextP ?init = []" "\<not> initializedRefP ?init"
    using pe by (simp_all add: initialPlain_fields)
  have t0: "totalP papa ?init = 0" using pe a0(2) by (rule totalP_of_empty_text)
  have r: "reactP papa (FetchResolvedP body) ?init = ?b" using a0(1) filled by simp
  have st: "runP papa (mountP papa w1) [FetchResolvedP body] = settleP papa ?s"
    by (simp add: runP_def stepP_def m r del: reactP.simps)
  have 1: "lastDepsP ?s = Some (depsOfP papa ?init)" by simp
  have 3: "depIndexP (depsOfP papa ?init) = currentIndexP (uiP ?s)" by (simp add: depsOfP_def)
  have 4: "depTotalP (depsOfP papa ?init) \<noteq> totalP papa (uiP ?s)"
    using pos t0 by (simp add: depsOfP_def)
  have 5: "\<not> initializedRefP (uiP ?s)" using a0(3) by simp
  have 6: "0 < totalP papa (uiP ?s)" using pos by simp
  have "uiP (settleP papa ?s) = uiP (commitP papa ?s)" using 1 3 4 5 6 by (rule settleP_hydrate)
  also have "\<dots> = (uiP ?s)\<lparr>initializedRefP := True, hasInitializedRefP := True,
      currentIndexP := getStoredIndex (totalP papa (uiP ?s)) (getItem (envP ?s) storedIndex)\<rparr>"
    using 1 3 4 5 6 by (rule commitP_hydrate)
  finally show ?thesis by (simp add: st)
qed

lemma reloadP_restores:
  assumes pe: "fst (parseBusinesses papa []) = []" and c: "consistentP papa w0 s"
    and hyd: "hasInitializedRefP (uiP s)" and fits: "totalP papa (uiP s) < overflowBound"
  shows "currentIndexP (uiP (runP papa (mountP papa (envP s)) [FetchResolvedP (csvTextP (uiP s))]))
           = currentIndexP (uiP s)"
proof -
  let ?body = "csvTextP (uiP s)"
  let ?b = "(initialPlain papa (envP s))\<lparr>csvTextP := ?body, fetchPendingP := False\<rparr>"
  from c hyd have r: "0 \<le> currentIndexP (uiP s)" "currentIndexP (uiP s) < totalP papa (uiP s)"
    and csv: "?body = [] \<or> trim ?body \<noteq> []"
    by (simp_all add: consistentP_def Let_def)
  from c hyd fits have g: "getStoredIndex (totalP papa (uiP s)) (getItem (envP s) storedIndex)
      = currentIndexP (uiP s)"
    by (simp add: consistentP_def Let_def)
  have filled: "trim ?body \<noteq> []"
  proof
    assume "trim ?body = []"
    with csv have "?body = []" by blast
    with pe have "totalP papa (uiP s) = 0" by (rule totalP_of_empty_text)
    with r show False by simp
  qed
  have t: "totalP papa ?b = totalP papa (uiP s)" by (simp add: totalP_def)
  have pos: "0 < totalP papa ?b" using r t by simp
  have u: "uiP (runP papa (mountP papa (envP s)) [FetchResolvedP ?body]) =
     (initialPlain papa (envP s))
       \<lparr>csvTextP := ?body, fetchPendingP := False, initializedRefP := True,
        hasInitializedRefP := True,
        currentIndexP := getStoredIndex (totalP papa ?b) (getItem (envP s) storedIndex)\<rparr>"
    using pe filled pos by (rule restartP_restores)
  show ?thesis by (simp add: u t g)
qed

lemma runP_append: "runP papa s (es @ fs) = runP papa (runP papa s es) fs"
  by (simp add: runP_def)

lemma runP_jumpEvents:
  assumes clean: "\<not> dirtyP papa s"
    and r: "0 \<le> currentIndexP (uiP s)" "currentIndexP (uiP s) < totalP papa (uiP s)"
    and k: "0 \<le> k" "k < totalP papa (uiP s)" and fits: "totalP papa (uiP s) < overflowBound"
  shows "currentIndexP (uiP (runP papa s (jumpEventsP (k + 1)))) = k"
    and "csvTextP (uiP (runP papa s (jumpEventsP (k + 1)))) = csvTextP (uiP s)"
    and "hasInitializedRefP (uiP (runP papa s (jumpEventsP (k + 1)))) = hasInitializedRefP (uiP s)"
proof -
  let ?n = "numberToString (k + 1)"
  let ?s1 = "stepP papa s ClickPosition"
  let ?s2 = "stepP papa ?s1 (ChangePosition ?n)"
  let ?s3 = "stepP papa ?s2 CommitPosition"
  have run: "runP papa s (jumpEventsP (k + 1)) = ?s3" by (simp add: runP_def jumpEventsP_def)
  have vis: "showNavigation papa (uiP s)" using r by (simp add: showNavigation_def)
  have u1: "uiP ?s1 = reactP papa ClickPosition (uiP s)"
    using clean by (rule stepP_navigation_ui) (simp add: isNavigationP_def)
  have u2: "uiP ?s2 = reactP papa (ChangePosition ?n) (uiP ?s1)"
    using stepP_clean by (rule stepP_navigation_ui) (simp add: isNavigationP_def)
  have u3: "uiP ?s3 = reactP papa CommitPosition (uiP ?s2)"
    using stepP_clean by (rule stepP_navigation_ui) (simp add: isNavigationP_def)
  have e1: "isEditingIndex (uiP ?s1)" "csvTextP (uiP ?s1) = csvTextP (uiP s)"
    "hasInitializedRefP (uiP ?s1) = hasInitializedRefP (uiP s)"
    using vis by (simp_all add: u1)
  have v1: "showNavigation papa (uiP ?s1)"
    using vis e1(2) by (simp add: showNavigation_def totalP_def)
  have e2: "isEditingIndex (uiP ?s2)" "csvTextP (uiP ?s2) = csvTextP (uiP s)"
    "hasInitializedRefP (uiP ?s2) = hasInitializedRefP (uiP s)" "inputIndex (uiP ?s2) = ?n"
    using v1 e1 by (simp_all add: u2)
  have v2: "showNavigation papa (uiP ?s2)"
    using vis e2(2) by (simp add: showNavigation_def totalP_def)
  have t2: "totalP papa (uiP ?s2) = totalP papa (uiP s)" using e2(2) by (simp add: totalP_def)
  have "0 < overflowBound" by (simp add: overflowBound_def)
  then have p: "parseInt ?n = Fin (k + 1)"
    using k fits by (intro parseInt_numberToString) linarith+
  have c: "clamp (k + 1 - 1) 0 (totalP papa (uiP s) - 1) = k" using k by (simp add: clamp_def)
  have u3': "uiP ?s3 = commitIndex papa (uiP ?s2)" using v2 e2(1) by (simp add: u3)
  show "currentIndexP (uiP (runP papa s (jumpEventsP (k + 1)))) = k"
    using c by (simp add: run u3' commitIndex_def e2(4) p t2 Let_def)
  show "csvTextP (uiP (runP papa s (jumpEventsP (k + 1)))) = csvTextP (uiP s)"
    by (simp add: run u3' commitIndex_def e2 p Let_def)
  show "hasInitializedRefP (uiP (runP papa s (jumpEventsP (k + 1)))) = hasInitializedRefP (uiP s)"
    by (simp add: run u3' commitIndex_def e2 p Let_def)
qed

lemma round_trip_plain:
  assumes "fst (parseBusinesses papa []) = []" and "\<not> storageThrows w"
    and "hasInitializedRefP (uiP (runP papa (mountP papa w) es))"
    and "totalP papa (uiP (runP papa (mountP papa w) es)) < overflowBound"
  shows "currentIndexP (uiP (runP papa (mountP papa (envP (runP papa (mountP papa w) es)))
            [FetchResolvedP (csvTextP (uiP (runP papa (mountP papa w) es)))]))
          = currentIndexP (uiP (runP papa (mountP papa w) es))"
    and "0 \<le> k \<and> k < totalP papa (uiP (runP papa (mountP papa w) es)) \<longrightarrow>
          (let s = runP papa (mountP papa w) (es @ jumpEventsP (k + 1));
               r = runP papa (mountP papa (envP s)) [FetchResolvedP (csvTextP (uiP s))]
           in currentIndexP (uiP s) = k \<and> currentIndexP (uiP r) = k)"
proof -
  let ?s = "runP papa (mountP papa w) es"
  have c: "consistentP papa w ?s"
    using assms(1) by (rule consistentP_run) (rule consistentP_mount [OF assms(1,2)])
  show "currentIndexP (uiP (runP papa (mountP papa (envP ?s)) [FetchResolvedP (csvTextP (uiP ?s))]))
          = currentIndexP (uiP ?s)"
    using assms(1) c assms(3,4) by (rule reloadP_restores)
  show "0 \<le> k \<and> k < totalP papa (uiP ?s) \<longrightarrow>
          (let s = runP papa (mountP papa w) (es @ jumpEventsP (k + 1));
               r = runP papa (mountP papa (envP s)) [FetchResolvedP (csvTextP (uiP s))]
           in currentIndexP (uiP s) = k \<and> currentIndexP (uiP r) = k)"
  proof
    assume k: "0 \<le> k \<and> k < totalP papa (uiP ?s)"
    let ?j = "runP papa ?s (jumpEventsP (k + 1))"
    have clean: "\<not> dirtyP papa ?s" using c by (simp add: consistentP_def Let_def)
    have r: "0 \<le> currentIndexP (uiP ?s)" "currentIndexP (uiP ?s) < totalP papa (uiP ?s)"
      using c assms(3) by (simp_all add: consistentP_def Let_def)
    have j: "currentIndexP (uiP ?j) = k" "csvTextP (uiP ?j) = csvTextP (uiP ?s)"
      "hasInitializedRefP (uiP ?j) = hasInitializedRefP (uiP ?s)"
      using runP_jumpEvents [OF clean r _ _ assms(4), of k] k by simp_all
    have tj: "totalP papa (uiP ?j) = totalP papa (uiP ?s)" using j(2) by (simp add: totalP_def)
    have cj: "consistentP papa w ?j" using assms(1) c by (rule consistentP_run)
    have "currentIndexP (uiP (runP papa (mountP papa (envP ?j)) [FetchResolvedP (csvTextP (uiP ?j))]))
        = currentIndexP (uiP ?j)"
      using assms(1) cj by (rule reloadP_restores) (simp_all add: j tj assms(3,4))
    then show "let s = runP papa (mountP papa w) (es @ jumpEventsP (k + 1));
               r = runP papa (mountP papa (envP s)) [FetchResolvedP (csvTextP (uiP s))]
           in currentIndexP (uiP s) = k \<and> currentIndexP (uiP r) = k"
      by (simp add: Let_def runP_append j(1))
  qed
qed


section \<open>The sample run\<close>

lemma sampleSystem_value:
  "sampleSystem =
     \<lparr> ui = \<lparr> csvText = ''csv'', fetchPending = False, selectedIndustry = [], currentIndex = 2,
              jumpInput = [], showJumpInput = False, initializedRef = True,
              hasInitializedRef = True \<rparr>,
       lastDeps = Some \<lparr> depIndex = 2, depIndustry = [], depTotal = 4 \<rparr>,
       env = \<lparr> storageThrows = False, storedIndex = Some ''2'', storedIndustry = Some [],
               urlIndustry = None \<rparr>,
       log = [Hydrate, SetItemIndex ''2'', SetItemIndustry [], ReplaceUrl None] \<rparr>"
  by code_simp

lemma sampleSystem_clean: "\<not> dirty samplePapa sampleSystem"
  unfolding sampleSystem_value by code_simp

lemma sampleSystem_total: "totalOf samplePapa (ui sampleSystem) = 4"
  unfolding sampleSystem_value by code_simp

lemma sampleSystem_index: "currentIndex (ui sampleSystem) = 2"
  unfolding sampleSystem_value by simp

lemma sampleSystem_shown:
  "currentBusiness samplePapa (ui sampleSystem) = Some (sampleBusinesses ! 2)"
  unfolding sampleSystem_value by code_simp

lemma sampleSystemP_value:
  "sampleSystemP =
     \<lparr> uiP = \<lparr> csvTextP = ''csv'', fetchPendingP = False, currentIndexP = 2,
               isEditingIndex = False, inputIndex = [], initializedRefP = True,
               hasInitializedRefP = True \<rparr>,
       lastDepsP = Some \<lparr> depIndexP = 2, depTotalP = 4 \<rparr>,
       envP = \<lparr> storageThrows = False, storedIndex = Some ''2'', storedIndustry = None,
                urlIndustry = None \<rparr>,
       logP = [Hydrate, SetItemIndex ''2''] \<rparr>"
  by code_simp

lemma sampleSystemP_clean: "\<not> dirtyP samplePapa sampleSystemP"
  unfolding sampleSystemP_value by code_simp

lemma sampleSystemP_total: "totalP samplePapa (uiP sampleSystemP) = 4"
  unfolding sampleSystemP_value by code_simp

lemma sampleSystemP_index: "currentIndexP (uiP sampleSystemP) = 2"
  unfolding sampleSystemP_value by simp

lemma sampleSystemP_shown:
  "currentBusinessP samplePapa (uiP sampleSystemP) = Some (sampleBusinesses ! 2)"
  unfolding sampleSystemP_value by code_simp

lemma samplePapa_empty: "fst (parseBusinesses samplePapa []) = []"
  by code_simp


section \<open>The claims about the life of the position\<close>

lemma guard_plain:
  "writesFollowHydration (logP (runP papa (mountP papa w) ps))
   \<and> count_list (logP (runP papa (mountP papa w) ps)) Hydrate \<le> 1
   \<and> (\<not> hasInitializedRefP (uiP (runP papa (mountP papa w) ps)) \<longrightarrow>
        envP (runP papa (mountP papa w) ps) = w
        \<and> list_all (\<lambda>x. \<not> isWrite x) (logP (runP papa (mountP papa w) ps)))"
proof -
  have g: "guardedP w (runP papa (mountP papa w) ps)"
    by (rule guardedP_run) (rule guardedP_mount)
  then show ?thesis by (auto simp: guardedP_def wfh_quiet)
qed

text \<open>
  Claim C1. In every run from the first render, of the dashboard with the filter and of the
  one without, no write of the index or the filter to the storage and no write of the URL
  comes before the hydration, which happens at most once; as long as the dashboard has
  not hydrated, nothing has been written and the browser holds what it held at the start,
  a saved position included.
\<close>

theorem writes_only_after_hydration:
  "(writesFollowHydration (log (run papa (mount papa w) es))
    \<and> count_list (log (run papa (mount papa w) es)) Hydrate \<le> 1
    \<and> (\<not> hasInitializedRef (ui (run papa (mount papa w) es)) \<longrightarrow>
         env (run papa (mount papa w) es) = w
         \<and> list_all (\<lambda>x. \<not> isWrite x) (log (run papa (mount papa w) es))))
   \<and> (writesFollowHydration (logP (runP papa (mountP papa w) ps))
    \<and> count_list (logP (runP papa (mountP papa w) ps)) Hydrate \<le> 1
    \<and> (\<not> hasInitializedRefP (uiP (runP papa (mountP papa w) ps)) \<longrightarrow>
         envP (runP papa (mountP papa w) ps) = w
         \<and> list_all (\<lambda>x. \<not> isWrite x) (logP (runP papa (mountP papa w) ps))))"
  using guard_filter [of papa w es] guard_plain [of papa w ps] by (rule conjI)

theorem writes_only_after_hydration_witness:
  "\<not> hasInitializedRef (ui (run samplePapa (mount samplePapa sampleBrowser) [ClickNext]))
   \<and> env (run samplePapa (mount samplePapa sampleBrowser) [ClickNext]) = sampleBrowser
   \<and> log (run samplePapa (mount samplePapa sampleBrowser) [ClickNext]) = []
   \<and> log (run samplePapa (mount samplePapa sampleBrowser) [FetchResolved ''csv'', ClickNext])
       = [Hydrate, SetItemIndex ''2'', SetItemIndustry [], ReplaceUrl None,
          SetItemIndex ''3'', SetItemIndustry [], ReplaceUrl None]
   \<and> writesFollowHydration
        (log (run samplePapa (mount samplePapa sampleBrowser) [FetchResolved ''csv'', ClickNext]))
   \<and> \<not> hasInitializedRefP (uiP (runP samplePapa (mountP samplePapa sampleBrowser) [ClickNextP]))
   \<and> envP (runP samplePapa (mountP samplePapa sampleBrowser) [ClickNextP]) = sampleBrowser
   \<and> logP (runP samplePapa (mountP samplePapa sampleBrowser) [FetchResolvedP ''csv'', ClickNextP])
       = [Hydrate, SetItemIndex ''2'', SetItemIndex ''3'']
   \<and> writesFollowHydration
        (logP (runP samplePapa (mountP samplePapa sampleBrowser) [FetchResolvedP ''csv'', ClickNextP]))"
proof -
  have a: "\<not> hasInitializedRef (ui (run samplePapa (mount samplePapa sampleBrowser) [ClickNext]))"
    by code_simp
  have b: "log (run samplePapa (mount samplePapa sampleBrowser) [ClickNext]) = []"
    by code_simp
  have c: "log (run samplePapa (mount samplePapa sampleBrowser) [FetchResolved ''csv'', ClickNext])
       = [Hydrate, SetItemIndex ''2'', SetItemIndustry [], ReplaceUrl None,
          SetItemIndex ''3'', SetItemIndustry [], ReplaceUrl None]"
    by code_simp
  have d: "\<not> hasInitializedRefP (uiP (runP samplePapa (mountP samplePapa sampleBrowser) [ClickNextP]))"
    by code_simp
  have e: "logP (runP samplePapa (mountP samplePapa sampleBrowser) [FetchResolvedP ''csv'', ClickNextP])
       = [Hydrate, SetItemIndex ''2'', SetItemIndex ''3'']"
    by code_simp
  show ?thesis
    using writes_only_after_hydration [of samplePapa sampleBrowser "[ClickNext]" "[ClickNextP]"]
      writes_only_after_hydration [of samplePapa sampleBrowser "[FetchResolved ''csv'', ClickNext]"
        "[FetchResolvedP ''csv'', ClickNextP]"]
      a b c d e
    by simp
qed

lemma arrows_plain:
  assumes "\<not> dirtyP papa q"
    and "0 \<le> currentIndexP (uiP q)" and "currentIndexP (uiP q) < totalP papa (uiP q)"
  shows "currentIndexP (uiP (stepP papa q ClickPreviousP)) = max 0 (currentIndexP (uiP q) - 1)
    \<and> currentIndexP (uiP (stepP papa q ClickNextP))
        = min (totalP papa (uiP q) - 1) (currentIndexP (uiP q) + 1)
    \<and> (currentIndexP (uiP q) = 0 \<longrightarrow> stepP papa q ClickPreviousP = q)
    \<and> (currentIndexP (uiP q) = totalP papa (uiP q) - 1 \<longrightarrow> stepP papa q ClickNextP = q)
    \<and> (list_all isNavigationP ps \<longrightarrow>
          0 \<le> currentIndexP (uiP (runP papa q ps))
          \<and> currentIndexP (uiP (runP papa q ps)) \<le> totalP papa (uiP q) - 1
          \<and> totalP papa (uiP (runP papa q ps)) = totalP papa (uiP q))"
proof -
  note a = previous_next_plain [OF assms]
  have r: "list_all isNavigationP ps \<longrightarrow>
          0 \<le> currentIndexP (uiP (runP papa q ps))
          \<and> currentIndexP (uiP (runP papa q ps)) \<le> totalP papa (uiP q) - 1
          \<and> totalP papa (uiP (runP papa q ps)) = totalP papa (uiP q)"
    using runP_navigation [of ps papa q] assms by auto
  from a r show ?thesis by blast
qed

text \<open>
  Claim C5. On a settled dashboard showing row \<open>i\<close> of \<open>L\<close>, with the filter or without,
  Previous gives \<open>max 0 (i - 1)\<close> and Next gives \<open>min (L - 1) (i + 1)\<close>; Previous at 0
  and Next at \<open>L - 1\<close> change nothing; and no sequence of navigation events takes the
  index out of \<open>[0, L - 1]\<close>.
\<close>

theorem previous_next_stay_in_range:
  "(\<not> dirty papa s \<and> 0 \<le> currentIndex (ui s) \<and> currentIndex (ui s) < totalOf papa (ui s) \<longrightarrow>
      currentIndex (ui (step papa s ClickPrevious)) = max 0 (currentIndex (ui s) - 1)
      \<and> currentIndex (ui (step papa s ClickNext))
          = min (totalOf papa (ui s) - 1) (currentIndex (ui s) + 1)
      \<and> (currentIndex (ui s) = 0 \<longrightarrow> step papa s ClickPrevious = s)
      \<and> (currentIndex (ui s) = totalOf papa (ui s) - 1 \<longrightarrow> step papa s ClickNext = s)
      \<and> (list_all isNavigation es \<longrightarrow>
            0 \<le> currentIndex (ui (run papa s es))
            \<and> currentIndex (ui (run papa s es)) \<le> totalOf papa (ui s) - 1
            \<and> totalOf papa (ui (run papa s es)) = totalOf papa (ui s)))
   \<and> (\<not> dirtyP papa q \<and> 0 \<le> currentIndexP (uiP q)
        \<and> currentIndexP (uiP q) < totalP papa (uiP q) \<longrightarrow>
      currentIndexP (uiP (stepP papa q ClickPreviousP)) = max 0 (currentIndexP (uiP q) - 1)
      \<and> currentIndexP (uiP (stepP papa q ClickNextP))
          = min (totalP papa (uiP q) - 1) (currentIndexP (uiP q) + 1)
      \<and> (currentIndexP (uiP q) = 0 \<longrightarrow> stepP papa q ClickPreviousP = q)
      \<and> (currentIndexP (uiP q) = totalP papa (uiP q) - 1 \<longrightarrow> stepP papa q ClickNextP = q)
      \<and> (list_all isNavigationP ps \<longrightarrow>
            0 \<le> currentIndexP (uiP (runP papa q ps))
            \<and> currentIndexP (uiP (runP papa q ps)) \<le> totalP papa (uiP q) - 1
            \<and> totalP papa (uiP (runP papa q ps)) = totalP papa (uiP q)))"
proof (rule conjI; rule impI)
  assume "\<not> dirty papa s \<and> 0 \<le> currentIndex (ui s) \<and> currentIndex (ui s) < totalOf papa (ui s)"
  then show "currentIndex (ui (step papa s ClickPrevious)) = max 0 (currentIndex (ui s) - 1)
      \<and> currentIndex (ui (step papa s ClickNext))
          = min (totalOf papa (ui s) - 1) (currentIndex (ui s) + 1)
      \<and> (currentIndex (ui s) = 0 \<longrightarrow> step papa s ClickPrevious = s)
      \<and> (currentIndex (ui s) = totalOf papa (ui s) - 1 \<longrightarrow> step papa s ClickNext = s)
      \<and> (list_all isNavigation es \<longrightarrow>
            0 \<le> currentIndex (ui (run papa s es))
            \<and> currentIndex (ui (run papa s es)) \<le> totalOf papa (ui s) - 1
            \<and> totalOf papa (ui (run papa s es)) = totalOf papa (ui s))"
    by (intro arrows_filter) simp_all
next
  assume "\<not> dirtyP papa q \<and> 0 \<le> currentIndexP (uiP q)
        \<and> currentIndexP (uiP q) < totalP papa (uiP q)"
  then show "currentIndexP (uiP (stepP papa q ClickPreviousP)) = max 0 (currentIndexP (uiP q) - 1)
      \<and> currentIndexP (uiP (stepP papa q ClickNextP))
          = min (totalP papa (uiP q) - 1) (currentIndexP (uiP q) + 1)
      \<and> (currentIndexP (uiP q) = 0 \<longrightarrow> stepP papa q ClickPreviousP = q)
      \<and> (currentIndexP (uiP q) = totalP papa (uiP q) - 1 \<longrightarrow> stepP papa q ClickNextP = q)
      \<and> (list_all isNavigationP ps \<longrightarrow>
            0 \<le> currentIndexP (uiP (runP papa q ps))
            \<and> currentIndexP (uiP (runP papa q ps)) \<le> totalP papa (uiP q) - 1
            \<and> totalP papa (uiP (runP papa q ps)) = totalP papa (uiP q))"
    by (intro arrows_plain) simp_all
qed

theorem previous_next_stay_in_range_witness:
  "\<not> dirty samplePapa sampleSystem
   \<and> 0 \<le> currentIndex (ui sampleSystem)
   \<and> currentIndex (ui sampleSystem) < totalOf samplePapa (ui sampleSystem)
   \<and> currentIndex (ui (step samplePapa sampleSystem ClickPrevious)) = 1
   \<and> currentIndex (ui (step samplePapa sampleSystem ClickNext)) = 3
   \<and> list_all isNavigation [ClickNext, ClickNext, ClickNext]
   \<and> currentIndex (ui (run samplePapa sampleSystem [ClickNext, ClickNext, ClickNext])) = 3
   \<and> currentIndex (ui (run samplePapa sampleSystem [ClickNext])) = 4 - 1
   \<and> step samplePapa (run samplePapa sampleSystem [ClickNext]) ClickNext
        = run samplePapa sampleSystem [ClickNext]
   \<and> currentIndex (ui (run samplePapa sampleSystem [ClickPrevious, ClickPrevious])) = 0
   \<and> step samplePapa (run samplePapa sampleSystem [ClickPrevious, ClickPrevious]) ClickPrevious
        = run samplePapa sampleSystem [ClickPrevious, ClickPrevious]
   \<and> \<not> dirtyP samplePapa sampleSystemP
   \<and> 0 \<le> currentIndexP (uiP sampleSystemP)
   \<and> currentIndexP (uiP sampleSystemP) < totalP samplePapa (uiP sampleSystemP)
   \<and> currentIndexP (uiP (stepP samplePapa sampleSystemP ClickPreviousP)) = 1
   \<and> currentIndexP (uiP (stepP samplePapa sampleSystemP ClickNextP)) = 3
   \<and> list_all isNavigationP [ClickNextP, ClickNextP, ClickNextP]
   \<and> currentIndexP (uiP (runP samplePapa sampleSystemP [ClickNextP, ClickNextP, ClickNextP])) = 3
   \<and> currentIndexP (uiP (runP samplePapa sampleSystemP [ClickNextP])) = 4 - 1
   \<and> stepP samplePapa (runP samplePapa sampleSystemP [ClickNextP]) ClickNextP
        = runP samplePapa sampleSystemP [ClickNextP]
   \<and> currentIndexP (uiP (runP samplePapa sampleSystemP [ClickPreviousP, ClickPreviousP])) = 0
   \<and> stepP samplePapa (runP samplePapa sampleSystemP [ClickPreviousP, ClickPreviousP])
          ClickPreviousP
        = runP samplePapa sampleSystemP [ClickPreviousP, ClickPreviousP]"
proof -
  let ?hi = "run samplePapa sampleSystem [ClickNext]"
  let ?hiP = "runP samplePapa sampleSystemP [ClickNextP]"
  let ?loP = "runP samplePapa sampleSystemP [ClickPreviousP, ClickPreviousP]"
  let ?lo = "run samplePapa sampleSystem [ClickPrevious, ClickPrevious]"
  have n: "list_all isNavigation [ClickNext, ClickNext, ClickNext]" by (simp add: isNavigation_def)
  have r: "currentIndex (ui (run samplePapa sampleSystem [ClickNext, ClickNext, ClickNext])) = 3"
    unfolding sampleSystem_value by code_simp
  have hi: "\<not> dirty samplePapa ?hi" "currentIndex (ui ?hi) = 3" "totalOf samplePapa (ui ?hi) = 4"
    unfolding sampleSystem_value by code_simp+
  have lo: "\<not> dirty samplePapa ?lo" "currentIndex (ui ?lo) = 0" "totalOf samplePapa (ui ?lo) = 4"
    unfolding sampleSystem_value by code_simp+
  have np: "list_all isNavigationP [ClickNextP, ClickNextP, ClickNextP]"
    by (simp add: isNavigationP_def)
  have rp: "currentIndexP (uiP (runP samplePapa sampleSystemP [ClickNextP, ClickNextP, ClickNextP])) = 3"
    unfolding sampleSystemP_value by code_simp
  have hip: "\<not> dirtyP samplePapa ?hiP" "currentIndexP (uiP ?hiP) = 3"
    "totalP samplePapa (uiP ?hiP) = 4"
    unfolding sampleSystemP_value by code_simp+
  have lop: "\<not> dirtyP samplePapa ?loP" "currentIndexP (uiP ?loP) = 0"
    "totalP samplePapa (uiP ?loP) = 4"
    unfolding sampleSystemP_value by code_simp+
  show ?thesis
    using previous_next_stay_in_range [of samplePapa sampleSystem
        "[ClickNext, ClickNext, ClickNext]" sampleSystemP "[ClickNextP, ClickNextP, ClickNextP]"]
      previous_next_stay_in_range [of samplePapa ?hi "[]" ?hiP "[]"]
      previous_next_stay_in_range [of samplePapa ?lo "[]" ?loP "[]"]
      n r hi lo np rp hip lop
    by (simp add: sampleSystem_clean sampleSystem_total sampleSystem_index
        sampleSystemP_clean sampleSystemP_total sampleSystemP_index)
qed

theorem filter_change_resets_once_witness:
  "\<not> dirty samplePapa sampleSystem
   \<and> initializedRef (ui sampleSystem) \<and> hasInitializedRef (ui sampleSystem)
   \<and> cardVisible samplePapa (ui sampleSystem)
   \<and> ''food'' \<in> set (industries (businessesOf samplePapa (ui sampleSystem)))
   \<and> ''food'' \<noteq> selectedIndustry (ui sampleSystem)
   \<and> currentIndex (ui sampleSystem) = 2
   \<and> currentIndex (ui (step samplePapa sampleSystem (SelectIndustry ''food''))) = 0
   \<and> selectedIndustry (ui (step samplePapa sampleSystem (SelectIndustry ''food''))) = ''food''
   \<and> count_list (log sampleSystem) ResetIndex = 0
   \<and> count_list (log (step samplePapa sampleSystem (SelectIndustry ''food''))) ResetIndex = 1
   \<and> count_list (log (step samplePapa (step samplePapa sampleSystem (SelectIndustry ''food''))
        (SelectIndustry ''food''))) ResetIndex = 1
   \<and> count_list (log (step samplePapa sampleSystem ClickNext)) ResetIndex = 0"
proof -
  have h: "initializedRef (ui sampleSystem)" "hasInitializedRef (ui sampleSystem)"
    "cardVisible samplePapa (ui sampleSystem)"
    "''food'' \<in> set (industries (businessesOf samplePapa (ui sampleSystem)))"
    "''food'' \<noteq> selectedIndustry (ui sampleSystem)"
    unfolding sampleSystem_value by code_simp+
  have z: "count_list (log sampleSystem) ResetIndex = 0"
    unfolding sampleSystem_value by simp
  show ?thesis
    using filter_change_resets_once [of samplePapa sampleSystem "''food''" ClickNext]
      h z sampleSystem_clean sampleSystem_index
    by simp
qed

text \<open>
  Claim C2. Provided the storage works and the dataset fits the range of numbers, whatever
  position a hydrated dashboard has come to, a fresh start on the browser it leaves behind,
  with the same CSV text, comes to the same index (and, with the filter, to the same filter
  and the same record); in particular after a jump to any index \<open>k\<close> of the active rows.
  With four rows, no filter and the stored text \<^verbatim>\<open>2\<close>, the first record shown is the
  third row.
\<close>

theorem position_round_trip:
  assumes "fst (parseBusinesses papa []) = []" and "\<not> storageThrows w"
  shows "(hasInitializedRef (ui (run papa (mount papa w) es))
          \<and> totalOf papa (ui (run papa (mount papa w) es)) < overflowBound \<longrightarrow>
            (let s = run papa (mount papa w) es;
                 r = run papa (mount papa (env s)) [FetchResolved (csvText (ui s))]
             in currentIndex (ui r) = currentIndex (ui s)
                \<and> selectedIndustry (ui r) = selectedIndustry (ui s)
                \<and> currentBusiness papa (ui r) = currentBusiness papa (ui s))
            \<and> (0 \<le> k \<and> k < totalOf papa (ui (run papa (mount papa w) es)) \<longrightarrow>
                 (let s = run papa (mount papa w) (es @ jumpEvents (k + 1));
                      r = run papa (mount papa (env s)) [FetchResolved (csvText (ui s))]
                  in currentIndex (ui s) = k \<and> currentIndex (ui r) = k
                     \<and> currentBusiness papa (ui r) = currentBusiness papa (ui s))))
    \<and> (hasInitializedRefP (uiP (runP papa (mountP papa w) ps))
          \<and> totalP papa (uiP (runP papa (mountP papa w) ps)) < overflowBound \<longrightarrow>
            currentIndexP (uiP (runP papa (mountP papa (envP (runP papa (mountP papa w) ps)))
                [FetchResolvedP (csvTextP (uiP (runP papa (mountP papa w) ps)))]))
              = currentIndexP (uiP (runP papa (mountP papa w) ps))
            \<and> (0 \<le> k \<and> k < totalP papa (uiP (runP papa (mountP papa w) ps)) \<longrightarrow>
                 (let s = runP papa (mountP papa w) (ps @ jumpEventsP (k + 1));
                      r = runP papa (mountP papa (envP s)) [FetchResolvedP (csvTextP (uiP s))]
                  in currentIndexP (uiP s) = k \<and> currentIndexP (uiP r) = k)))
    \<and> storedIndex sampleBrowser = Some ''2'' \<and> length sampleBusinesses = 4
    \<and> totalOf samplePapa (ui sampleSystem) = 4 \<and> selectedIndustry (ui sampleSystem) = []
    \<and> currentIndex (ui sampleSystem) = 2
    \<and> currentBusiness samplePapa (ui sampleSystem) = Some (sampleBusinesses ! 2)
    \<and> totalP samplePapa (uiP sampleSystemP) = 4
    \<and> currentIndexP (uiP sampleSystemP) = 2
    \<and> currentBusinessP samplePapa (uiP sampleSystemP) = Some (sampleBusinesses ! 2)"
proof -
  have f: "hasInitializedRef (ui (run papa (mount papa w) es))
          \<and> totalOf papa (ui (run papa (mount papa w) es)) < overflowBound \<longrightarrow>
            (let s = run papa (mount papa w) es;
                 r = run papa (mount papa (env s)) [FetchResolved (csvText (ui s))]
             in currentIndex (ui r) = currentIndex (ui s)
                \<and> selectedIndustry (ui r) = selectedIndustry (ui s)
                \<and> currentBusiness papa (ui r) = currentBusiness papa (ui s))
            \<and> (0 \<le> k \<and> k < totalOf papa (ui (run papa (mount papa w) es)) \<longrightarrow>
                 (let s = run papa (mount papa w) (es @ jumpEvents (k + 1));
                      r = run papa (mount papa (env s)) [FetchResolved (csvText (ui s))]
                  in currentIndex (ui s) = k \<and> currentIndex (ui r) = k
                     \<and> currentBusiness papa (ui r) = currentBusiness papa (ui s)))"
    using round_trip_filter [OF assms, of es k] by blast
  have p: "hasInitializedRefP (uiP (runP papa (mountP papa w) ps))
          \<and> totalP papa (uiP (runP papa (mountP papa w) ps)) < overflowBound \<longrightarrow>
            currentIndexP (uiP (runP papa (mountP papa (envP (runP papa (mountP papa w) ps)))
                [FetchResolvedP (csvTextP (uiP (runP papa (mountP papa w) ps)))]))
              = currentIndexP (uiP (runP papa (mountP papa w) ps))
            \<and> (0 \<le> k \<and> k < totalP papa (uiP (runP papa (mountP papa w) ps)) \<longrightarrow>
                 (let s = runP papa (mountP papa w) (ps @ jumpEventsP (k + 1));
                      r = runP papa (mountP papa (envP s)) [FetchResolvedP (csvTextP (uiP s))]
                  in currentIndexP (uiP s) = k \<and> currentIndexP (uiP r) = k))"
    using round_trip_plain(1) [OF assms, of ps] round_trip_plain(2) [OF assms, of ps k]
    by blast
  have s: "storedIndex sampleBrowser = Some ''2''" "length sampleBusinesses = 4"
    "selectedIndustry (ui sampleSystem) = []"
    by (simp_all add: sampleBrowser_def sampleBusinesses_def sampleSystem_value)
  from f p s sampleSystem_total sampleSystem_index sampleSystem_shown
    sampleSystemP_total sampleSystemP_index sampleSystemP_shown
  show ?thesis by (intro conjI)
qed

theorem position_round_trip_witness:
  "fst (parseBusinesses samplePapa []) = [] \<and> \<not> storageThrows sampleBrowser
   \<and> hasInitializedRef (ui (run samplePapa (mount samplePapa sampleBrowser) [FetchResolved ''csv'']))
   \<and> totalOf samplePapa (ui (run samplePapa (mount samplePapa sampleBrowser) [FetchResolved ''csv'']))
        < overflowBound
   \<and> (0::int) \<le> 3
   \<and> 3 < totalOf samplePapa (ui (run samplePapa (mount samplePapa sampleBrowser) [FetchResolved ''csv'']))
   \<and> currentIndex (ui (run samplePapa (mount samplePapa sampleBrowser)
          ([FetchResolved ''csv''] @ jumpEvents (3 + 1)))) = 3
   \<and> storedIndex (env (run samplePapa (mount samplePapa sampleBrowser)
          ([FetchResolved ''csv''] @ jumpEvents (3 + 1)))) = Some ''3''
   \<and> currentIndex (ui (run samplePapa
          (mount samplePapa (env (run samplePapa (mount samplePapa sampleBrowser)
             ([FetchResolved ''csv''] @ jumpEvents (3 + 1)))))
          [FetchResolved (csvText (ui (run samplePapa (mount samplePapa sampleBrowser)
             ([FetchResolved ''csv''] @ jumpEvents (3 + 1)))))])) = 3
   \<and> hasInitializedRefP (uiP (runP samplePapa (mountP samplePapa sampleBrowser) [FetchResolvedP ''csv'']))
   \<and> totalP samplePapa (uiP (runP samplePapa (mountP samplePapa sampleBrowser) [FetchResolvedP ''csv'']))
        < overflowBound
   \<and> 3 < totalP samplePapa (uiP (runP samplePapa (mountP samplePapa sampleBrowser) [FetchResolvedP ''csv'']))
   \<and> currentIndexP (uiP (runP samplePapa (mountP samplePapa sampleBrowser)
          ([FetchResolvedP ''csv''] @ jumpEventsP (3 + 1)))) = 3
   \<and> storedIndex (envP (runP samplePapa (mountP samplePapa sampleBrowser)
          ([FetchResolvedP ''csv''] @ jumpEventsP (3 + 1)))) = Some ''3''
   \<and> currentIndexP (uiP (runP samplePapa
          (mountP samplePapa (envP (runP samplePapa (mountP samplePapa sampleBrowser)
             ([FetchResolvedP ''csv''] @ jumpEventsP (3 + 1)))))
          [FetchResolvedP (csvTextP (uiP (runP samplePapa (mountP samplePapa sampleBrowser)
             ([FetchResolvedP ''csv''] @ jumpEventsP (3 + 1)))))])) = 3"
proof -
  let ?s = "run samplePapa (mount samplePapa sampleBrowser) [FetchResolved ''csv'']"
  let ?q = "runP samplePapa (mountP samplePapa sampleBrowser) [FetchResolvedP ''csv'']"
  have nt: "\<not> storageThrows sampleBrowser" by (simp add: sampleBrowser_def)
  have hyd: "hasInitializedRef (ui ?s)"
    using sampleSystem_value by (simp add: sampleSystem_def)
  have t: "totalOf samplePapa (ui ?s) = 4" using sampleSystem_total by (simp add: sampleSystem_def)
  have hydp: "hasInitializedRefP (uiP ?q)"
    using sampleSystemP_value by (simp add: sampleSystemP_def)
  have tp: "totalP samplePapa (uiP ?q) = 4" using sampleSystemP_total by (simp add: sampleSystemP_def)
  have fits: "(4::int) < overflowBound" by (simp add: overflowBound_def)
  have st: "storedIndex (env (run samplePapa (mount samplePapa sampleBrowser)
          ([FetchResolved ''csv''] @ jumpEvents (3 + 1)))) = Some ''3''"
    by code_simp
  have stp: "storedIndex (envP (runP samplePapa (mountP samplePapa sampleBrowser)
          ([FetchResolvedP ''csv''] @ jumpEventsP (3 + 1)))) = Some ''3''"
    by code_simp
  show ?thesis
    using position_round_trip [OF samplePapa_empty nt, where es = "[FetchResolved ''csv'']"
        and k = 3 and ps = "[FetchResolvedP ''csv'']"]
      samplePapa_empty nt hyd hydp fits st stp
    by (simp add: Let_def t tp)
qed

end
